theory Spec2Isabelle
  imports Complex_Main "HOL-Library.AList"
begin

section \<open>JavaScript strings\<close>

text \<open>
  A JavaScript string is modelled as a \<open>string\<close> (a list of characters); an index
  is a \<open>nat\<close>.  Only the string primitives the analysed code calls are modelled:
  \<open>substring(0, n)\<close>, \<open>split('\n')\<close>, \<open>includes\<close>, \<open>trim\<close> and indexing of
  an array of lines, whose out-of-range result \<open>undefined\<close> is \<open>None\<close>.
\<close>

abbreviation LF :: char where
  "LF \<equiv> CHR 0x0A"

text \<open>\<open>s.substring(0, n)\<close>: the first \<open>n\<close> characters, all of \<open>s\<close> when \<open>n\<close> is past its end.\<close>

definition substring0 :: "string \<Rightarrow> nat \<Rightarrow> string" where
  "substring0 s n = take n s"

text \<open>\<open>s.split('\n')\<close>: never empty; the empty string gives one empty line.\<close>

fun split_newline :: "string \<Rightarrow> string list" where
  "split_newline [] = [] # []"
| "split_newline (c # cs) =
     (if c = LF then [] # split_newline cs
      else (case split_newline cs of
              [] \<Rightarrow> [c] # []
            | l # ls \<Rightarrow> (c # l) # ls))"

fun startsWith :: "string \<Rightarrow> string \<Rightarrow> bool" where
  "startsWith s [] = True"
| "startsWith [] (p # ps) = False"
| "startsWith (c # cs) (p # ps) = (c = p \<and> startsWith cs ps)"

text \<open>\<open>s.includes(sub)\<close>: \<open>sub\<close> occurs somewhere in \<open>s\<close>.\<close>

fun str_includes :: "string \<Rightarrow> string \<Rightarrow> bool" where
  "str_includes [] sub = (sub = [])"
| "str_includes (c # cs) sub = (startsWith (c # cs) sub \<or> str_includes cs sub)"

text \<open>\<open>lines[i]\<close>: \<open>undefined\<close> (here \<open>None\<close>) when \<open>i\<close> is out of range.\<close>

definition array_get :: "'a list \<Rightarrow> nat \<Rightarrow> 'a option" where
  "array_get xs i = (if i < length xs then Some (xs ! i) else None)"

section \<open>Position resolver\<close>

text \<open>
  \<^verbatim>\<open>getLineAndColumn(content, index)\<close> of the rule engine and of the heuristic
  analyzer: the same body twice in the source, so embedded twice.  The array
  \<open>lines\<close> comes from \<open>split\<close> and is never empty, so \<open>lines[lines.length - 1]\<close>
  is its last element.
\<close>

definition RuleEngine_getLineAndColumn :: "string \<Rightarrow> nat \<Rightarrow> nat \<times> nat" where
  "RuleEngine_getLineAndColumn content index =
     (let beforeMatch = substring0 content index;
          lines = split_newline beforeMatch;
          lineNo = length lines;
          columnNo = length (last lines) + 1
      in (lineNo, columnNo))"

definition MLAnalyzer_getLineAndColumn :: "string \<Rightarrow> nat \<Rightarrow> nat \<times> nat" where
  "MLAnalyzer_getLineAndColumn content index =
     (let beforeMatch = substring0 content index;
          lines = split_newline beforeMatch;
          lineNo = length lines;
          columnNo = length (last lines) + 1
      in (lineNo, columnNo))"

text \<open>
  The specification's words for the resolver: the number of newline characters
  strictly before the offset, and the index of the last newline before the
  offset (\<open>-1\<close> when there is none).
\<close>

definition newlinesBefore :: "string \<Rightarrow> nat \<Rightarrow> nat" where
  "newlinesBefore t o' = length (filter (\<lambda>c. c = LF) (take o' t))"

fun lastIndexOfLF :: "string \<Rightarrow> int" where
  "lastIndexOfLF [] = -1"
| "lastIndexOfLF (c # cs) =
     (let r = lastIndexOfLF cs in
      if r \<ge> 0 then r + 1 else if c = LF then 0 else -1)"

definition lastNewlineIndexBefore :: "string \<Rightarrow> nat \<Rightarrow> int" where
  "lastNewlineIndexBefore t o' = lastIndexOfLF (take o' t)"

section \<open>Regular expressions\<close>

text \<open>
  A global \<open>RegExp\<close> object is modelled by what its \<open>exec\<close> does: \<open>p content lastIndex\<close>
  is \<open>None\<close> when \<open>p.exec(content)\<close> returns \<open>null\<close> with the cursor at \<open>lastIndex\<close>, and
  \<open>Some (index, m)\<close> when it returns a match at \<open>index\<close> whose text \<open>match[0]\<close> is \<open>m\<close>;
  \<open>exec\<close> then moves the cursor to \<open>index + length m\<close>.  All patterns of the source
  carry the \<open>g\<close> flag.
\<close>

type_synonym RegExp = "string \<Rightarrow> nat \<Rightarrow> (nat \<times> string) option"

text \<open>
  The result of a call: it returns a value, throws an error with a message, or
  never returns.  A scanning loop never returns when the pattern matches the
  empty string: \<open>exec\<close> leaves the cursor where it is and the loop finds the same
  match again.
\<close>

datatype 'a outcome = Returns 'a | Throws string | Diverges

text \<open>
  The regular expressions of the source are written in the following syntax,
  and \<open>regex_exec\<close> gives them the backtracking semantics of the JavaScript
  engine: \<open>matchEnds r s i\<close> lists the positions where a match of \<open>r\<close> that
  starts at \<open>i\<close> can end, in the order in which backtracking tries them, so a
  greedy star lists the longest run first and the empty run last.  Capture
  groups do not change \<open>match[0]\<close> and are left out.
\<close>

datatype regex =
    Lit string
  | Cls "char \<Rightarrow> bool"
  | Seq regex regex
  | Alt regex regex
  | Star regex
  | NegLook regex
  | Bol
  | Eol
  | WordB

definition isLineTerminator :: "char \<Rightarrow> bool" where
  "isLineTerminator c = (c = LF \<or> c = CHR 0x0D)"

definition isSpace :: "char \<Rightarrow> bool" where
  "isSpace c = (let n = (of_char c :: nat) in n = 32 \<or> (9 \<le> n \<and> n \<le> 13) \<or> n = 160)"

definition isWord :: "char \<Rightarrow> bool" where
  "isWord c = (let n = (of_char c :: nat) in
     (97 \<le> n \<and> n \<le> 122) \<or> (65 \<le> n \<and> n \<le> 90) \<or> (48 \<le> n \<and> n \<le> 57) \<or> n = 95)"

function matchEnds :: "regex \<Rightarrow> string \<Rightarrow> nat \<Rightarrow> nat list" where
  "matchEnds (Lit l) s i = (if startsWith (drop i s) l then [i + length l] else [])"
| "matchEnds (Cls p) s i = (if i < length s \<and> p (s ! i) then [i + 1] else [])"
| "matchEnds (Seq a b) s i = concat (map (\<lambda>j. matchEnds b s j) (matchEnds a s i))"
| "matchEnds (Alt a b) s i = matchEnds a s i @ matchEnds b s i"
| "matchEnds (Star a) s i =
     concat (map (\<lambda>j. if i < j \<and> j \<le> length s then matchEnds (Star a) s j else [])
                 (matchEnds a s i)) @ [i]"
| "matchEnds (NegLook a) s i = (if matchEnds a s i = [] then [i] else [])"
| "matchEnds Bol s i =
     (if i = 0 \<or> (i \<le> length s \<and> isLineTerminator (s ! (i - 1))) then [i] else [])"
| "matchEnds Eol s i =
     (if length s \<le> i \<or> isLineTerminator (s ! i) then [i] else [])"
| "matchEnds WordB s i =
     (if (0 < i \<and> i \<le> length s \<and> isWord (s ! (i - 1))) \<noteq> (i < length s \<and> isWord (s ! i))
      then [i] else [])"
  by pat_completeness auto
termination
  by (relation "measures [\<lambda>(r, s, i). size r, \<lambda>(r, s, i). length s - i]") auto

text \<open>The leftmost position from the cursor on where the expression matches.\<close>

fun firstMatch :: "regex \<Rightarrow> string \<Rightarrow> nat \<Rightarrow> nat \<Rightarrow> (nat \<times> string) option" where
  "firstMatch r s i 0 = None"
| "firstMatch r s i (Suc n) =
     (case matchEnds r s i of
        [] \<Rightarrow> firstMatch r s (Suc i) n
      | e # _ \<Rightarrow> Some (i, take (e - i) (drop i s)))"

definition regex_exec :: "regex \<Rightarrow> RegExp" where
  "regex_exec r s lastIndex = firstMatch r s lastIndex (Suc (length s) - lastIndex)"

fun seqs :: "regex list \<Rightarrow> regex" where
  "seqs [] = Lit []"
| "seqs [r] = r"
| "seqs (r # rs) = Seq r (seqs rs)"

definition Plus :: "regex \<Rightarrow> regex" where
  "Plus r = Seq r (Star r)"

definition Opt :: "regex \<Rightarrow> regex" where
  "Opt r = Alt r (Lit [])"

definition anyBut :: "char \<Rightarrow> regex" where
  "anyBut x = Cls (\<lambda>c. c \<noteq> x)"

abbreviation spaces :: regex where
  "spaces \<equiv> Star (Cls isSpace)"

abbreviation word1 :: regex where
  "word1 \<equiv> Plus (Cls isWord)"

text \<open>\<open>\(...[^)]*\)\<close>, which five detectors share.\<close>

definition parenthesised :: "regex list" where
  "parenthesised = [Lit ''('', Star (anyBut CHR '')''), Lit '')'']"

section \<open>Findings\<close>

text \<open>
  A finding is a JavaScript object; the attributes an engine leaves out are
  \<open>None\<close>.  A rule finding copies \<open>severity\<close> and \<open>message\<close> from its rule, where
  they may be absent.
\<close>

record finding =
  type :: string
  severity :: "string option"
  file' :: string
  line :: nat
  column :: nat
  message :: "string option"
  rule :: string
  code :: "string option"
  suggestion :: "string option"
  confidence :: "rat option"
  category :: "string option"

section \<open>The heuristic analyzer (\<open>MLAnalyzer\<close>)\<close>

record ml_config =
  enabled :: bool
  confidenceThreshold :: rat
  maxWarningsPerFile :: int

text \<open>The constructor's argument: any of the three settings may be left out.\<close>

record ml_options =
  opt_enabled :: "bool option"
  opt_confidenceThreshold :: "rat option"
  opt_maxWarningsPerFile :: "int option"

record detector =
  d_type :: string
  d_pattern :: RegExp
  d_message :: string

record category_config =
  c_description :: string
  c_severity :: string
  c_confidence :: rat
  c_patterns :: "detector list"

record ml_model =
  m_type :: string
  m_version :: string
  m_patterns :: "(string \<times> category_config) list"

record MLAnalyzer =
  config :: ml_config
  model :: "ml_model option"

record heuristic_match =
  h_line :: nat
  h_column :: nat
  h_confidence :: rat
  h_match :: string

subsection \<open>The pattern table of \<open>getHeuristicPatterns\<close>\<close>

definition rx_async_await_misuse :: regex where
  "rx_async_await_misuse =
     seqs ([Lit ''async'', Plus (Cls isSpace), Lit ''function'', spaces, Star (Cls isWord), spaces]
           @ parenthesised
           @ [spaces, Lit ''{'', spaces, Star (anyBut CHR ''}''), Lit ''await'', Plus (Cls isSpace),
              Plus (anyBut CHR '';''), Lit '';'', spaces, Star (anyBut CHR ''}''), Lit ''}''])"

definition rx_promise_chain_missing_catch :: regex where
  "rx_promise_chain_missing_catch =
     seqs ([Lit ''.then'', spaces] @ parenthesised @ [spaces, NegLook (Lit ''.catch'')])"

definition anyOnLine :: regex where
  "anyOnLine = Star (Cls (\<lambda>c. \<not> isLineTerminator c))"

definition rx_event_listener_no_removal :: regex where
  "rx_event_listener_no_removal =
     seqs ([Lit ''addEventListener'', spaces] @ parenthesised
           @ [spaces, NegLook (Seq anyOnLine (Lit ''removeEventListener''))])"

definition rx_setinterval_no_clear :: regex where
  "rx_setinterval_no_clear =
     seqs ([Lit ''setInterval'', spaces] @ parenthesised
           @ [spaces, NegLook (Seq anyOnLine (Lit ''clearInterval''))])"

definition rx_optional_chaining_missing :: regex where
  "rx_optional_chaining_missing = seqs [word1, Lit ''.'', word1, Lit ''.'', word1]"

definition rx_array_access_no_bounds_check :: regex where
  "rx_array_access_no_bounds_check = seqs [word1, Lit ''['', word1, Lit '']'']"

definition rx_loose_equality :: regex where
  "rx_loose_equality = seqs [Lit ''=='', spaces, anyBut CHR ''='']"

definition rx_loose_inequality :: regex where
  "rx_loose_inequality = seqs [Lit ''!='', spaces, anyBut CHR ''='']"

definition rx_nested_loops :: regex where
  "rx_nested_loops =
     seqs ([Lit ''for'', spaces] @ parenthesised
           @ [spaces, Lit ''{'', Star (anyBut CHR ''}''), Lit ''for'', spaces] @ parenthesised)"

definition rx_string_concatenation_in_loop :: regex where
  "rx_string_concatenation_in_loop =
     seqs ([Lit ''for'', spaces] @ parenthesised
           @ [spaces, Lit ''{'', Star (anyBut CHR ''}''), Lit ''+'', spaces, Lit ''=''])"

definition getHeuristicPatterns :: "(string \<times> category_config) list" where
  "getHeuristicPatterns =
    [(''race-condition'', \<lparr>
        c_description = ''Potential race condition detected'',
        c_severity = ''warning'',
        c_confidence = 0.8,
        c_patterns = [
          \<lparr>d_type = ''async-await-misuse'',
           d_pattern = regex_exec rx_async_await_misuse,
           d_message = ''Async function with await but no proper error handling''\<rparr>,
          \<lparr>d_type = ''promise-chain-missing-catch'',
           d_pattern = regex_exec rx_promise_chain_missing_catch,
           d_message = ''Promise chain missing error handling (.catch)''\<rparr>]\<rparr>),
     (''memory-leak'', \<lparr>
        c_description = ''Potential memory leak detected'',
        c_severity = ''warning'',
        c_confidence = 0.75,
        c_patterns = [
          \<lparr>d_type = ''event-listener-no-removal'',
           d_pattern = regex_exec rx_event_listener_no_removal,
           d_message = ''Event listener added but no removal mechanism visible''\<rparr>,
          \<lparr>d_type = ''setinterval-no-clear'',
           d_pattern = regex_exec rx_setinterval_no_clear,
           d_message = ''setInterval called but no clearInterval visible''\<rparr>]\<rparr>),
     (''null-access'', \<lparr>
        c_description = ''Potential null/undefined access'',
        c_severity = ''warning'',
        c_confidence = 0.85,
        c_patterns = [
          \<lparr>d_type = ''optional-chaining-missing'',
           d_pattern = regex_exec rx_optional_chaining_missing,
           d_message = ''Deep property access without null checks''\<rparr>,
          \<lparr>d_type = ''array-access-no-bounds-check'',
           d_pattern = regex_exec rx_array_access_no_bounds_check,
           d_message = ''Array access without bounds checking''\<rparr>]\<rparr>),
     (''type-safety'', \<lparr>
        c_description = ''Potential type safety issue'',
        c_severity = ''warning'',
        c_confidence = 0.8,
        c_patterns = [
          \<lparr>d_type = ''loose-equality'',
           d_pattern = regex_exec rx_loose_equality,
           d_message = ''Use strict equality (===) instead of loose equality (==)''\<rparr>,
          \<lparr>d_type = ''loose-inequality'',
           d_pattern = regex_exec rx_loose_inequality,
           d_message = ''Use strict inequality (!==) instead of loose inequality (!=)''\<rparr>]\<rparr>),
     (''performance'', \<lparr>
        c_description = ''Performance anti-pattern detected'',
        c_severity = ''warning'',
        c_confidence = 0.7,
        c_patterns = [
          \<lparr>d_type = ''nested-loops'',
           d_pattern = regex_exec rx_nested_loops,
           d_message = ''Nested loops detected - consider optimization''\<rparr>,
          \<lparr>d_type = ''string-concatenation-in-loop'',
           d_pattern = regex_exec rx_string_concatenation_in_loop,
           d_message = ''String concatenation in loop - consider using array.join()''\<rparr>]\<rparr>)]"

text \<open>
  The constructor: the defaults, overridden by the settings given, and the
  model set by \<open>initializeModel\<close>, whose body has no \<open>await\<close> and so has run when
  the constructor returns.
\<close>

definition initializeModel :: "ml_model option" where
  "initializeModel =
     Some \<lparr>m_type = ''heuristic'', m_version = ''1.0.0'', m_patterns = getHeuristicPatterns\<rparr>"

definition MLAnalyzer_new :: "ml_options \<Rightarrow> MLAnalyzer" where
  "MLAnalyzer_new opts =
     \<lparr>config = \<lparr>enabled = (case opt_enabled opts of None \<Rightarrow> True | Some e \<Rightarrow> e),
                 confidenceThreshold =
                   (case opt_confidenceThreshold opts of None \<Rightarrow> 0.7 | Some t \<Rightarrow> t),
                 maxWarningsPerFile =
                   (case opt_maxWarningsPerFile opts of None \<Rightarrow> 10 | Some k \<Rightarrow> k)\<rparr>,
      model = initializeModel\<rparr>"

subsection \<open>Confidence of a match\<close>

text \<open>
  \<open>calculateConfidence(match, lineContent, lineNumber)\<close>, with \<open>match[0]\<close> for the
  match.  Confidences are JavaScript numbers; they are modelled as rationals,
  so \<open>0.5 + 0.2\<close> is exactly \<open>0.7\<close>.
\<close>

definition hasDisableComment :: "string \<Rightarrow> bool" where
  "hasDisableComment lineContent =
     (str_includes lineContent ''// outrider-disable'' \<or>
      str_includes lineContent ''// eslint-disable'')"

definition calculateConfidence :: "string \<Rightarrow> string \<Rightarrow> nat \<Rightarrow> rat" where
  "calculateConfidence match0 lineContent lineNumber =
     (let c0 = 0.5;
          c1 = (if length match0 > 20 then c0 + 0.2 else c0);
          c2 = (if str_includes lineContent ''// outrider-disable'' \<or>
                   str_includes lineContent ''// eslint-disable''
                then c1 - 0.3 else c1);
          c3 = (if str_includes match0 ''setInterval'' \<or>
                   str_includes match0 ''addEventListener''
                then c2 + 0.1 else c2)
      in max 0 (min 1 c3))"

subsection \<open>Scanning one pattern\<close>

text \<open>
  The \<open>while\<close> loop of \<open>findPatternMatches\<close>, from the cursor \<open>lastIndex\<close> on, with
  the matches pushed so far.  \<open>lines[line - 1]\<close> is \<open>undefined\<close> when out of range,
  and \<open>calculateConfidence\<close> then throws at \<open>lineContent.includes\<close>.  The loop
  goes on only if \<open>exec\<close> has moved the cursor forward (and not past the end of
  the text, which no \<open>exec\<close> does); otherwise it never ends.
\<close>

function findPatternMatches_loop ::
  "RegExp \<Rightarrow> string \<Rightarrow> string list \<Rightarrow> nat \<Rightarrow> heuristic_match list \<Rightarrow> heuristic_match list outcome"
where
  "findPatternMatches_loop pattern content lines lastIndex matches =
     (case pattern content lastIndex of
        None \<Rightarrow> Returns matches
      | Some (index, match0) \<Rightarrow>
          (case MLAnalyzer_getLineAndColumn content index of
             (lineNo, columnNo) \<Rightarrow>
               (case array_get lines (lineNo - 1) of
                  None \<Rightarrow> Throws ''Cannot read properties of undefined (reading 'includes')''
                | Some lineContent \<Rightarrow>
                    (let conf = calculateConfidence match0 lineContent lineNo;
                         matches' = matches @ [\<lparr>h_line = lineNo, h_column = columnNo,
                                                 h_confidence = conf, h_match = match0\<rparr>]
                     in if lastIndex < index + length match0 \<and>
                           index + length match0 \<le> length content
                        then findPatternMatches_loop pattern content lines
                               (index + length match0) matches'
                        else Diverges))))"
  by pat_completeness auto
termination
  by (relation "measure (\<lambda>(pattern, content, lines, lastIndex, matches). length content - lastIndex)")
     auto

definition findPatternMatches :: "RegExp \<Rightarrow> string \<Rightarrow> string list \<Rightarrow> heuristic_match list outcome" where
  "findPatternMatches pattern content lines = findPatternMatches_loop pattern content lines 0 []"

subsection \<open>Suggestions\<close>

definition mlSuggestions :: "(string \<times> (string \<times> string) list) list" where
  "mlSuggestions =
    [(''race-condition'',
        [(''async-await-misuse'', ''Wrap await calls in try-catch blocks''),
         (''promise-chain-missing-catch'', ''Add .catch() to handle promise rejections'')]),
     (''memory-leak'',
        [(''event-listener-no-removal'',
            ''Store reference to listener and remove it when no longer needed''),
         (''setinterval-no-clear'', ''Store interval ID and call clearInterval when appropriate'')]),
     (''null-access'',
        [(''optional-chaining-missing'', ''Use optional chaining (?.) or add null checks''),
         (''array-access-no-bounds-check'', ''Check array bounds before accessing elements'')]),
     (''type-safety'',
        [(''loose-equality'', ''Replace == with === for strict equality comparison''),
         (''loose-inequality'', ''Replace != with !== for strict inequality comparison'')]),
     (''performance'',
        [(''nested-loops'', ''Consider using more efficient algorithms or data structures''),
         (''string-concatenation-in-loop'',
            ''Use array.push() and array.join() instead of string concatenation'')])]"

definition getMLSuggestion :: "string \<Rightarrow> string \<Rightarrow> string" where
  "getMLSuggestion cat ty =
     (case map_of mlSuggestions cat of
        None \<Rightarrow> ''Review and optimize according to best practices''
      | Some table \<Rightarrow>
          (case map_of table ty of
             None \<Rightarrow> ''Review and optimize according to best practices''
           | Some text \<Rightarrow> if text = [] then ''Review and optimize according to best practices'' else text))"

subsection \<open>\<open>analyzeWithHeuristics\<close> and \<open>analyze\<close>\<close>

text \<open>The object pushed for a match of detector \<open>pat\<close> of category \<open>cat\<close>.\<close>

definition heuristicFinding ::
  "string \<Rightarrow> category_config \<Rightarrow> detector \<Rightarrow> string \<Rightarrow> heuristic_match \<Rightarrow> finding" where
  "heuristicFinding cat categoryConfig pat filePath m =
     \<lparr>type = ''ml'',
      severity = Some (c_severity categoryConfig),
      file' = filePath,
      line = h_line m,
      column = h_column m,
      message = Some (d_message pat),
      rule = cat @ ''-'' @ d_type pat,
      code = None,
      suggestion = Some (getMLSuggestion cat (d_type pat)),
      confidence = Some (h_confidence m),
      category = Some cat\<rparr>"

text \<open>The three nested \<open>for\<close> loops, innermost first; \<open>results\<close> is the array pushed to.\<close>

fun forMatches ::
  "ml_config \<Rightarrow> string \<Rightarrow> category_config \<Rightarrow> detector \<Rightarrow> string \<Rightarrow>
   heuristic_match list \<Rightarrow> finding list \<Rightarrow> finding list" where
  "forMatches cfg cat categoryConfig pat filePath [] results = results"
| "forMatches cfg cat categoryConfig pat filePath (m # ms) results =
     forMatches cfg cat categoryConfig pat filePath ms
       (if h_confidence m \<ge> confidenceThreshold cfg
        then results @ [heuristicFinding cat categoryConfig pat filePath m]
        else results)"

fun forPatterns ::
  "ml_config \<Rightarrow> string \<Rightarrow> string list \<Rightarrow> string \<Rightarrow> string \<Rightarrow> category_config \<Rightarrow>
   detector list \<Rightarrow> finding list \<Rightarrow> finding list outcome" where
  "forPatterns cfg content lines filePath cat categoryConfig [] results = Returns results"
| "forPatterns cfg content lines filePath cat categoryConfig (pat # pats) results =
     (case findPatternMatches (d_pattern pat) content lines of
        Returns matches \<Rightarrow>
          forPatterns cfg content lines filePath cat categoryConfig pats
            (forMatches cfg cat categoryConfig pat filePath matches results)
      | Throws e \<Rightarrow> Throws e
      | Diverges \<Rightarrow> Diverges)"

fun forCategories ::
  "ml_config \<Rightarrow> string \<Rightarrow> string list \<Rightarrow> string \<Rightarrow> (string \<times> category_config) list \<Rightarrow>
   finding list \<Rightarrow> finding list outcome" where
  "forCategories cfg content lines filePath [] results = Returns results"
| "forCategories cfg content lines filePath ((cat, categoryConfig) # rest) results =
     (case forPatterns cfg content lines filePath cat categoryConfig
             (c_patterns categoryConfig) results of
        Returns results' \<Rightarrow> forCategories cfg content lines filePath rest results'
      | Throws e \<Rightarrow> Throws e
      | Diverges \<Rightarrow> Diverges)"

definition analyzeWithHeuristics ::
  "ml_config \<Rightarrow> ml_model \<Rightarrow> string \<Rightarrow> string \<Rightarrow> finding list outcome" where
  "analyzeWithHeuristics cfg m content filePath =
     (let lines = split_newline content
      in forCategories cfg content lines filePath (m_patterns m) [])"

definition analyzeWithMLModel :: "'ast \<Rightarrow> string \<Rightarrow> string \<Rightarrow> finding list outcome" where
  "analyzeWithMLModel ast content filePath = Returns []"

text \<open>
  \<open>results.slice(0, k)\<close> for an integer \<open>k\<close>: a negative \<open>k\<close> counts from the end.
\<close>

definition slice0 :: "'a list \<Rightarrow> int \<Rightarrow> 'a list" where
  "slice0 xs k = (if k < 0 then take (nat (int (length xs) + k)) xs else take (nat k) xs)"

text \<open>
  \<open>analyze(ast, content, filePath)\<close>.  An error thrown by the analysis is caught
  and logged, and \<open>results\<close> is still empty then.
\<close>

definition MLAnalyzer_analyze :: "MLAnalyzer \<Rightarrow> 'ast \<Rightarrow> string \<Rightarrow> string \<Rightarrow> finding list outcome" where
  "MLAnalyzer_analyze this ast content filePath =
     (case model this of
        None \<Rightarrow> Returns []
      | Some m \<Rightarrow>
          if \<not> enabled (config this) then Returns []
          else (case (if m_type m = ''heuristic''
                      then analyzeWithHeuristics (config this) m content filePath
                      else analyzeWithMLModel ast content filePath) of
                  Returns found \<Rightarrow> Returns (slice0 ([] @ found) (maxWarningsPerFile (config this)))
                | Throws e \<Rightarrow> Returns (slice0 [] (maxWarningsPerFile (config this)))
                | Diverges \<Rightarrow> Diverges))"


subsection \<open>Scan order\<close>

text \<open>
  Notions used to state what \<open>analyze\<close> returns: the matches of one pattern in
  the order in which \<open>findPatternMatches\<close> finds them, the findings of one
  detector (its matches that reach the threshold), and all findings in
  category, then detector, then occurrence order.
\<close>

definition rawMatches :: "RegExp \<Rightarrow> string \<Rightarrow> heuristic_match list" where
  "rawMatches p content =
     (case findPatternMatches p content (split_newline content) of
        Returns ms \<Rightarrow> ms
      | Throws e \<Rightarrow> []
      | Diverges \<Rightarrow> [])"

definition detectorFindings ::
  "ml_config \<Rightarrow> string \<Rightarrow> string \<Rightarrow> string \<Rightarrow> category_config \<Rightarrow> detector \<Rightarrow> finding list" where
  "detectorFindings cfg content filePath cat categoryConfig pat =
     map (heuristicFinding cat categoryConfig pat filePath)
       (filter (\<lambda>m. confidenceThreshold cfg \<le> h_confidence m)
          (rawMatches (d_pattern pat) content))"

definition scanOrder ::
  "ml_config \<Rightarrow> string \<Rightarrow> string \<Rightarrow> (string \<times> category_config) list \<Rightarrow> finding list" where
  "scanOrder cfg content filePath table =
     concat (map (\<lambda>(cat, categoryConfig).
                    concat (map (detectorFindings cfg content filePath cat categoryConfig)
                                (c_patterns categoryConfig)))
                 table)"

definition totalRawMatches :: "(string \<times> category_config) list \<Rightarrow> string \<Rightarrow> nat" where
  "totalRawMatches table content =
     sum_list (map (\<lambda>(cat, categoryConfig).
                      sum_list (map (\<lambda>pat. length (rawMatches (d_pattern pat) content))
                                    (c_patterns categoryConfig)))
                   table)"

text \<open>
  A match record as \<open>findPatternMatches\<close> builds it from an \<open>exec\<close> result at some
  index: resolved position, and the confidence of its text on its line.
\<close>

definition validMatch :: "string \<Rightarrow> string list \<Rightarrow> heuristic_match \<Rightarrow> bool" where
  "validMatch content lines m =
     (\<exists>index lineContent.
        (h_line m, h_column m) = MLAnalyzer_getLineAndColumn content index \<and>
        array_get lines (h_line m - 1) = Some lineContent \<and>
        h_confidence m = calculateConfidence (h_match m) lineContent (h_line m))"

text \<open>
  What every \<open>exec\<close> of a pattern that cannot match the empty string does: the
  match starts at or after the cursor, is not empty and ends within the text.
\<close>

definition progressive :: "RegExp \<Rightarrow> bool" where
  "progressive p =
     (\<forall>s lastIndex index m. p s lastIndex = Some (index, m) \<longrightarrow>
        lastIndex \<le> index \<and> m \<noteq> [] \<and> index + length m \<le> length s)"

text \<open>The least length of a match of a regular expression.\<close>

fun minLen :: "regex \<Rightarrow> nat" where
  "minLen (Lit l) = length l"
| "minLen (Cls p) = 1"
| "minLen (Seq a b) = minLen a + minLen b"
| "minLen (Alt a b) = min (minLen a) (minLen b)"
| "minLen (Star a) = 0"
| "minLen (NegLook a) = 0"
| "minLen Bol = 0"
| "minLen Eol = 0"
| "minLen WordB = 0"

section \<open>The rule engine (\<open>RuleEngine\<close>)\<close>

text \<open>
  A rule is an object whose attributes may all be absent (\<open>None\<close>).  The value of
  \<open>enabled\<close> can be any JavaScript value, since the engine only compares it with
  \<open>false\<close>.  A \<open>pattern\<close> that is absent or falsy is \<open>None\<close>; one that is present is a
  \<open>RegExp\<close> or some other truthy value (a string read from a JSON file, say),
  which has no \<open>exec\<close> method.  An exclusion pattern is modelled by its test
  \<open>lineContent.match(pattern)\<close>.
\<close>

datatype js_value = JUndefined | JNull | JBool bool | JNumber rat | JString string

datatype pattern_value = RegExpValue RegExp | OtherValue

record rule_config =
  r_name :: "string option"
  r_enabled :: "js_value option"
  r_severity :: "string option"
  r_description :: "string option"
  r_pattern :: "pattern_value option"
  r_exclude :: "(string \<Rightarrow> bool) list option"

text \<open>
  An object with string keys is an association list in insertion order;
  assigning to a key (\<open>AList.update\<close>) keeps the place of a key already there
  and appends a new one.  \<open>{...a, ...b}\<close> assigns the entries of \<open>b\<close> to a copy of \<open>a\<close>.
\<close>

definition objectSpread :: "(string \<times> 'v) list \<Rightarrow> (string \<times> 'v) list \<Rightarrow> (string \<times> 'v) list" where
  "objectSpread a b = foldl (\<lambda>acc (k, v). AList.update k v acc) a b"

record RuleEngine =
  rules :: "(string \<times> rule_config) list"
  enabledRules :: "string list"

subsection \<open>The default rules\<close>

abbreviation blank :: "char \<Rightarrow> bool" where
  "blank c \<equiv> c = CHR '' '' \<or> c = CHR 0x09"

definition lineComment :: regex where
  "lineComment = Opt (seqs [spaces, Lit ''//'', anyOnLine])"

definition rx_no_unused_variables :: regex where
  "rx_no_unused_variables =
     seqs [Lit ''const'', Plus (Cls isSpace), word1, spaces, Lit ''='', spaces,
           Plus (anyBut CHR '';''), Opt (Lit '';''), lineComment, Eol]"

definition rx_no_console_log :: regex where
  "rx_no_console_log =
     seqs [Lit ''console.'',
           Alt (Lit ''log'') (Alt (Lit ''warn'') (Alt (Lit ''error'') (Lit ''info''))),
           Lit ''('']"

definition rx_no_debugger :: regex where
  "rx_no_debugger = seqs [Lit ''debugger'', spaces, Opt (Lit '';'')]"

definition rx_no_eval :: regex where
  "rx_no_eval = seqs [Lit ''eval'', spaces, Lit ''('']"

definition rx_no_var :: regex where
  "rx_no_var = seqs [WordB, Lit ''var'', Plus (Cls isSpace), word1]"

definition rx_prefer_const :: regex where
  "rx_prefer_const =
     seqs [Lit ''let'', Plus (Cls isSpace), word1, spaces, Lit ''='', spaces,
           Plus (anyBut CHR '';''), Lit '';'', lineComment, Eol]"

definition rx_no_empty_blocks :: regex where
  "rx_no_empty_blocks = seqs [Lit ''{'', spaces, Lit ''}'']"

definition rx_no_multiple_empty_lines :: regex where
  "rx_no_multiple_empty_lines = seqs [Lit [LF], spaces, Lit [LF], spaces, Lit [LF]]"

definition rx_no_trailing_spaces :: regex where
  "rx_no_trailing_spaces = seqs [Plus (Cls blank), Eol]"

definition rx_no_mixed_spaces_and_tabs :: regex where
  "rx_no_mixed_spaces_and_tabs =
     seqs [Bol, Star (Cls blank), Lit [CHR 0x09], Star (Cls blank), Cls (\<lambda>c. \<not> blank c)]"

definition defaultRule :: "string \<Rightarrow> bool \<Rightarrow> string \<Rightarrow> string \<Rightarrow> regex \<Rightarrow> string \<times> rule_config" where
  "defaultRule ruleName on sev description rx =
     (ruleName, \<lparr>r_name = Some ruleName, r_enabled = Some (JBool on), r_severity = Some sev,
                 r_description = Some description,
                 r_pattern = Some (RegExpValue (regex_exec rx)), r_exclude = None\<rparr>)"

definition defaultRules :: "(string \<times> rule_config) list" where
  "defaultRules =
    [defaultRule ''no-unused-variables'' False ''warning''
       ''Variables that are declared but never used'' rx_no_unused_variables,
     defaultRule ''no-console-log'' True ''warning''
       ''Console.log statements should be removed in production'' rx_no_console_log,
     defaultRule ''no-debugger'' True ''error''
       ''Debugger statements should not be in production code'' rx_no_debugger,
     defaultRule ''no-eval'' True ''error''
       ''Eval can be dangerous and should be avoided'' rx_no_eval,
     defaultRule ''no-var'' True ''warning''
       ''Use const or let instead of var'' rx_no_var,
     defaultRule ''prefer-const'' True ''warning''
       ''Use const for variables that are never reassigned'' rx_prefer_const,
     defaultRule ''no-empty-blocks'' True ''warning''
       ''Empty blocks should be avoided'' rx_no_empty_blocks,
     defaultRule ''no-multiple-empty-lines'' True ''warning''
       ''Multiple consecutive empty lines should be avoided'' rx_no_multiple_empty_lines,
     defaultRule ''no-trailing-spaces'' True ''warning''
       ''Trailing spaces should be removed'' rx_no_trailing_spaces,
     defaultRule ''no-mixed-spaces-and-tabs'' True ''warning''
       ''Mixed spaces and tabs should be avoided'' rx_no_mixed_spaces_and_tabs]"

definition initializeRules :: "(string \<times> rule_config) list \<Rightarrow> (string \<times> rule_config) list" where
  "initializeRules customRules = objectSpread defaultRules customRules"

text \<open>
  \<open>getEnabledRules\<close>: the keys whose rule's \<open>enabled\<close> is not the value \<open>false\<close>.
  Every key has its rule, so the lookup's \<open>None\<close> is never met.
\<close>

definition getEnabledRules :: "(string \<times> rule_config) list \<Rightarrow> string list" where
  "getEnabledRules rs =
     filter (\<lambda>ruleName. case map_of rs ruleName of
                            None \<Rightarrow> False
                          | Some r \<Rightarrow> r_enabled r \<noteq> Some (JBool False))
            (map fst rs)"

definition RuleEngine_new :: "(string \<times> rule_config) list \<Rightarrow> RuleEngine" where
  "RuleEngine_new customRules =
     (let rs = initializeRules customRules
      in \<lparr>rules = rs, enabledRules = getEnabledRules rs\<rparr>)"

subsection \<open>Applying a rule\<close>

definition shouldSkipRule :: "rule_config \<Rightarrow> string \<Rightarrow> nat \<Rightarrow> bool" where
  "shouldSkipRule r lineContent lineNumber =
     (if str_includes lineContent ''// eslint-disable'' \<or>
         str_includes lineContent ''// outrider-disable''
      then True
      else if (case r_exclude r of
                 None \<Rightarrow> False
               | Some excl \<Rightarrow> list_ex (\<lambda>matches. matches lineContent) excl)
      then True
      else False)"

definition ruleSuggestions :: "(string \<times> string) list" where
  "ruleSuggestions =
    [(''no-console-log'', ''Remove console.log statement or use a proper logging library''),
     (''no-debugger'', ''Remove debugger statement''),
     (''no-eval'', ''Use alternative approaches like JSON.parse or Function constructor''),
     (''no-var'', ''Replace with const or let''),
     (''prefer-const'', ''Change let to const if variable is never reassigned''),
     (''no-empty-blocks'', ''Add content to block or remove if unnecessary''),
     (''no-multiple-empty-lines'', ''Reduce to maximum of one empty line''),
     (''no-trailing-spaces'', ''Remove trailing spaces''),
     (''no-mixed-spaces-and-tabs'', ''Use consistent indentation (spaces or tabs)'')]"

definition getSuggestion :: "string \<Rightarrow> string \<Rightarrow> string" where
  "getSuggestion ruleName violating =
     (case map_of ruleSuggestions ruleName of
        None \<Rightarrow> ''Review and fix according to rule description''
      | Some text \<Rightarrow> text)"

text \<open>\<open>s.trim()\<close>: white space and line terminators removed at both ends.\<close>

definition trim :: "string \<Rightarrow> string" where
  "trim s = rev (dropWhile isSpace (rev (dropWhile isSpace s)))"

definition violation :: "rule_config \<Rightarrow> string \<Rightarrow> string \<Rightarrow> nat \<Rightarrow> nat \<Rightarrow> string \<Rightarrow> finding" where
  "violation r ruleName filePath lineNo columnNo match0 =
     \<lparr>type = ''rule'',
      severity = r_severity r,
      file' = filePath,
      line = lineNo,
      column = columnNo,
      message = r_description r,
      rule = ruleName,
      code = Some (trim match0),
      suggestion = Some (getSuggestion ruleName match0),
      confidence = None,
      category = None\<rparr>"

text \<open>
  The \<open>while\<close> loop of \<open>applyRule\<close>, with the same conventions as the loop of
  \<open>findPatternMatches\<close>; \<open>continue\<close> keeps \<open>violations\<close> as it is.
\<close>

function applyRule_loop ::
  "RegExp \<Rightarrow> rule_config \<Rightarrow> string \<Rightarrow> string \<Rightarrow> string \<Rightarrow> string list \<Rightarrow> nat \<Rightarrow>
   finding list \<Rightarrow> finding list outcome"
where
  "applyRule_loop pattern r ruleName content filePath lines lastIndex violations =
     (case pattern content lastIndex of
        None \<Rightarrow> Returns violations
      | Some (matchStart, match0) \<Rightarrow>
          (case RuleEngine_getLineAndColumn content matchStart of
             (lineNo, columnNo) \<Rightarrow>
               (case array_get lines (lineNo - 1) of
                  None \<Rightarrow> Throws ''Cannot read properties of undefined (reading 'includes')''
                | Some lineContent \<Rightarrow>
                    (let violations' =
                           (if shouldSkipRule r lineContent lineNo then violations
                            else violations @
                                   [violation r ruleName filePath lineNo columnNo match0])
                     in if lastIndex < matchStart + length match0 \<and>
                           matchStart + length match0 \<le> length content
                        then applyRule_loop pattern r ruleName content filePath lines
                               (matchStart + length match0) violations'
                        else Diverges))))"
  by pat_completeness auto
termination
  by (relation "measure (\<lambda>(pattern, r, ruleName, content, filePath, lines, lastIndex, violations).
                            length content - lastIndex)")
     auto

definition applyRule :: "rule_config \<Rightarrow> string \<Rightarrow> string \<Rightarrow> string \<Rightarrow> finding list outcome" where
  "applyRule r ruleName content filePath =
     (case r_pattern r of
        None \<Rightarrow> Returns []
      | Some OtherValue \<Rightarrow> Throws ''rule.pattern.exec is not a function''
      | Some (RegExpValue pattern) \<Rightarrow>
          applyRule_loop pattern r ruleName content filePath (split_newline content) 0 [])"

text \<open>\<open>analyze(ast, content, filePath)\<close>: the loop over \<open>this.enabledRules\<close>.\<close>

fun forEnabledRules ::
  "(string \<times> rule_config) list \<Rightarrow> string \<Rightarrow> string \<Rightarrow> string list \<Rightarrow> finding list \<Rightarrow>
   finding list outcome" where
  "forEnabledRules rs content filePath [] results = Returns results"
| "forEnabledRules rs content filePath (ruleName # rest) results =
     (case map_of rs ruleName of
        None \<Rightarrow> Throws ''Cannot read properties of undefined (reading 'pattern')''
      | Some r \<Rightarrow>
          (case applyRule r ruleName content filePath of
             Returns violations \<Rightarrow> forEnabledRules rs content filePath rest (results @ violations)
           | Throws e \<Rightarrow> Throws e
           | Diverges \<Rightarrow> Diverges))"

definition RuleEngine_analyze :: "RuleEngine \<Rightarrow> 'ast \<Rightarrow> string \<Rightarrow> string \<Rightarrow> finding list outcome" where
  "RuleEngine_analyze this ast content filePath =
     forEnabledRules (rules this) content filePath (enabledRules this) []"

subsection \<open>Changing the rule set\<close>

definition setRuleEnabled :: "RuleEngine \<Rightarrow> string \<Rightarrow> js_value \<Rightarrow> RuleEngine" where
  "setRuleEnabled this ruleName v =
     (case map_of (rules this) ruleName of
        None \<Rightarrow> this
      | Some r \<Rightarrow>
          (let rs = AList.update ruleName (r\<lparr>r_enabled := Some v\<rparr>) (rules this)
           in \<lparr>rules = rs, enabledRules = getEnabledRules rs\<rparr>))"

definition addRule :: "RuleEngine \<Rightarrow> string \<Rightarrow> rule_config \<Rightarrow> RuleEngine" where
  "addRule this ruleName ruleConfig =
     (let r = \<lparr>r_name = (case r_name ruleConfig of None \<Rightarrow> Some ruleName | Some n \<Rightarrow> Some n),
               r_enabled = (case r_enabled ruleConfig of None \<Rightarrow> Some (JBool True) | Some v \<Rightarrow> Some v),
               r_severity = (case r_severity ruleConfig of None \<Rightarrow> Some ''warning'' | Some s \<Rightarrow> Some s),
               r_description = r_description ruleConfig,
               r_pattern = r_pattern ruleConfig,
               r_exclude = r_exclude ruleConfig\<rparr>;
          rs = AList.update ruleName r (rules this)
      in \<lparr>rules = rs, enabledRules = getEnabledRules rs\<rparr>)"

section \<open>Summaries and the risk score\<close>

text \<open>
  The score is a JavaScript number.  Counts are exact; the quotient of two
  counts is modelled as a rational, and as \<open>NaN\<close> or \<open>Infinity\<close> when the divisor is
  zero.  \<open>Math.round\<close> rounds a half upwards.
\<close>

datatype number = Num rat | Infinity | NaN

definition divide_counts :: "nat \<Rightarrow> nat \<Rightarrow> number" where
  "divide_counts a b =
     (if b = 0 then (if a = 0 then NaN else Infinity) else Num (of_nat a / of_nat b))"

definition times_number :: "number \<Rightarrow> rat \<Rightarrow> number" where
  "times_number x k = (case x of Num q \<Rightarrow> Num (q * k) | Infinity \<Rightarrow> Infinity | NaN \<Rightarrow> NaN)"

definition Math_round :: "number \<Rightarrow> number" where
  "Math_round x =
     (case x of Num q \<Rightarrow> Num (of_int \<lfloor>q + 1 / 2\<rfloor>) | Infinity \<Rightarrow> Infinity | NaN \<Rightarrow> NaN)"

definition Math_min :: "rat \<Rightarrow> number \<Rightarrow> number" where
  "Math_min k x = (case x of Num q \<Rightarrow> Num (min k q) | Infinity \<Rightarrow> Num k | NaN \<Rightarrow> NaN)"

subsection \<open>\<open>OutputFormatter.generateSummary\<close>\<close>

record summary =
  total :: nat
  errors :: nat
  warnings :: nat
  byType :: "string \<Rightarrow> nat option"
  bySeverity :: "string \<Rightarrow> nat option"
  byCategory :: "string \<Rightarrow> nat option"
  riskScore :: number

text \<open>\<open>counts[key] = (counts[key] || 0) + 1\<close>\<close>

definition increment :: "(string \<Rightarrow> nat option) \<Rightarrow> string \<Rightarrow> (string \<Rightarrow> nat option)" where
  "increment counts k = counts(k \<mapsto> (case counts k of None \<Rightarrow> 0 | Some n \<Rightarrow> n) + 1)"

text \<open>The key an attribute makes: an absent severity is the key \<open>undefined\<close>.\<close>

definition propertyKey :: "string option \<Rightarrow> string" where
  "propertyKey v = (case v of None \<Rightarrow> ''undefined'' | Some s \<Rightarrow> s)"

text \<open>The body of \<open>results.forEach\<close>.\<close>

definition countResult :: "summary \<Rightarrow> finding \<Rightarrow> summary" where
  "countResult s result =
     (let s1 = s\<lparr>bySeverity := increment (bySeverity s) (propertyKey (severity result))\<rparr>;
          s2 = (if severity result = Some ''error'' then s1\<lparr>errors := errors s1 + 1\<rparr>
                else if severity result = Some ''warning'' then s1\<lparr>warnings := warnings s1 + 1\<rparr>
                else s1);
          s3 = s2\<lparr>byType := increment (byType s2) (type result)\<rparr>
      in (case category result of
            None \<Rightarrow> s3
          | Some c \<Rightarrow> if c = [] then s3 else s3\<lparr>byCategory := increment (byCategory s3) c\<rparr>))"

definition OutputFormatter_generateSummary :: "finding list \<Rightarrow> summary" where
  "OutputFormatter_generateSummary results =
     (let s0 = \<lparr>total = length results, errors = 0, warnings = 0,
                byType = Map.empty, bySeverity = Map.empty, byCategory = Map.empty,
                riskScore = Num 0\<rparr>;
          s = foldl countResult s0 results
      in if length results > 0
         then (let errorWeight = 3;
                   warningWeight = 1;
                   weightedScore = errors s * errorWeight + warnings s * warningWeight
               in s\<lparr>riskScore :=
                      Math_min 100 (Math_round
                        (times_number (divide_counts weightedScore (length results)) 20))\<rparr>)
         else s)"

subsection \<open>\<open>generateSummary\<close> of the scan command\<close>

record scan_summary =
  scan_warnings :: nat
  scan_errors :: nat
  scan_riskScore :: number

definition scan_generateSummary :: "finding list \<Rightarrow> scan_summary" where
  "scan_generateSummary results =
     (let nWarnings = length (filter (\<lambda>r. severity r = Some ''warning'') results);
          nErrors = length (filter (\<lambda>r. severity r = Some ''error'') results);
          score =
            (if length results > 0
             then (let totalIssues = nWarnings + nErrors;
                       errorWeight = 3;
                       warningWeight = 1;
                       weightedScore = nErrors * errorWeight + nWarnings * warningWeight
                   in Math_min 100 (Math_round
                        (times_number (divide_counts weightedScore totalIssues) 20)))
             else Num 0)
      in \<lparr>scan_warnings = nWarnings, scan_errors = nErrors, scan_riskScore = score\<rparr>)"

subsection \<open>The score in the specification's words\<close>

definition severityWeight :: "finding \<Rightarrow> nat" where
  "severityWeight f =
     (if severity f = Some ''error'' then 3 else if severity f = Some ''warning'' then 1 else 0)"

definition spec_riskScore :: "finding list \<Rightarrow> rat" where
  "spec_riskScore fs =
     (if fs = [] then 0
      else min 100 (of_int \<lfloor>(of_nat (sum_list (map severityWeight fs)) :: rat)
                                / of_nat (length fs) * 20 + 1 / 2\<rfloor>))"

section \<open>Parsing and analysing files\<close>

subsection \<open>\<open>FileAnalyzer.parseFile\<close>\<close>

text \<open>
  The parser library is a parameter: \<open>parseModule\<close> and \<open>parseScript\<close> take the
  text and the \<open>jsx\<close> option and return a tree, or \<open>None\<close> when they throw.
\<close>

record 'tree esprima =
  parseModule :: "string \<Rightarrow> bool \<Rightarrow> 'tree option"
  parseScript :: "string \<Rightarrow> bool \<Rightarrow> 'tree option"

record basic_program =
  loc_end_line :: nat
  loc_end_column :: nat
  range_end :: nat
  basic_lines :: "string list"
  basic_content :: string

datatype 'tree ast = Parsed 'tree | BasicParse basic_program

definition toLowerCase :: "string \<Rightarrow> string" where
  "toLowerCase s =
     map (\<lambda>c. let n = (of_char c :: nat) in if 65 \<le> n \<and> n \<le> 90 then char_of (n + 32) else c) s"

definition supportedExtensions :: "string list" where
  "supportedExtensions = [''.js'', ''.ts'', ''.jsx'', ''.tsx'']"

definition parseJavaScript :: "'tree esprima \<Rightarrow> string \<Rightarrow> string \<Rightarrow> 'tree outcome" where
  "parseJavaScript lib content extension =
     (case parseModule lib content (extension = ''.jsx'') of
        Some tree \<Rightarrow> Returns tree
      | None \<Rightarrow>
          (case parseScript lib content (extension = ''.jsx'') of
             Some tree \<Rightarrow> Returns tree
           | None \<Rightarrow> Throws ''Failed to parse JavaScript''))"

text \<open>
  \<open>parseTypeScript\<close> calls \<open>this.parseJavaScript\<close>; \<open>bound\<close> says whether it was called
  with a receiver.  Without one \<open>this\<close> is \<open>undefined\<close> and the call throws.
\<close>

definition parseTypeScript :: "bool \<Rightarrow> 'tree esprima \<Rightarrow> string \<Rightarrow> string \<Rightarrow> 'tree outcome" where
  "parseTypeScript bound lib content extension =
     (if bound
      then (case parseJavaScript lib content extension of
              Returns tree \<Rightarrow> Returns tree
            | Throws e \<Rightarrow> Throws (''Failed to parse TypeScript: '' @ e)
            | Diverges \<Rightarrow> Diverges)
      else Throws ''Failed to parse TypeScript: Cannot read properties of undefined'')"

text \<open>
  The table \<open>this.parsers\<close>; \<open>parseFile\<close> calls its entry as a plain function, so
  without a receiver.
\<close>

definition parsers :: "(string \<times> ('tree esprima \<Rightarrow> string \<Rightarrow> string \<Rightarrow> 'tree outcome)) list" where
  "parsers =
     [(''.js'', parseJavaScript), (''.jsx'', parseJavaScript),
      (''.ts'', parseTypeScript False), (''.tsx'', parseTypeScript False)]"

definition parseBasic :: "string \<Rightarrow> string \<Rightarrow> 'tree ast" where
  "parseBasic content extension =
     (let lines = split_newline content
      in BasicParse \<lparr>loc_end_line = length lines,
                      loc_end_column = length (last lines) + 1,
                      range_end = length content,
                      basic_lines = lines,
                      basic_content = content\<rparr>)"

text \<open>The \<open>try\<close> block of \<open>parseFile\<close>, then \<open>parseFile\<close> with its \<open>catch\<close>.\<close>

definition parseFile_try :: "'tree esprima \<Rightarrow> string \<Rightarrow> string \<Rightarrow> 'tree outcome" where
  "parseFile_try lib content extension =
     (let normalizedExtension = toLowerCase extension
      in if normalizedExtension \<notin> set supportedExtensions
         then Throws (''Unsupported file type: '' @ extension)
         else (case map_of parsers normalizedExtension of
                 None \<Rightarrow> Throws (''No parser available for: '' @ extension)
               | Some parser \<Rightarrow> parser lib content extension))"

definition parseFile :: "'tree esprima \<Rightarrow> string \<Rightarrow> string \<Rightarrow> 'tree ast outcome" where
  "parseFile lib content extension =
     (case parseFile_try lib content extension of
        Returns tree \<Rightarrow> Returns (Parsed tree)
      | Throws e \<Rightarrow> Returns (parseBasic content extension)
      | Diverges \<Rightarrow> Diverges)"

subsection \<open>\<open>analyzeFile\<close> and the loop of the scan command\<close>

text \<open>
  \<open>path.extname\<close>, for a path as the file search returns it: the last segment's
  text from its last dot on, empty when there is no dot or only a leading one.
\<close>

definition basename :: "string \<Rightarrow> string" where
  "basename p = rev (takeWhile (\<lambda>c. c \<noteq> CHR ''/'') (rev p))"

definition extname :: "string \<Rightarrow> string" where
  "extname p =
     (let b = basename p;
          ext = rev (takeWhile (\<lambda>c. c \<noteq> CHR ''.'') (rev b))
      in if length ext = length b \<or> length ext + 1 = length b then [] else CHR ''.'' # ext)"

text \<open>The finding pushed by the \<open>catch\<close> block.\<close>

definition errorFinding :: "string \<Rightarrow> string \<Rightarrow> finding" where
  "errorFinding filePath errorMessage =
     \<lparr>type = ''error'',
      severity = Some ''error'',
      file' = filePath,
      line = 1,
      column = 1,
      message = Some (''Failed to analyze file: '' @ errorMessage),
      rule = ''file-parsing-error'',
      code = None,
      suggestion = None,
      confidence = None,
      category = None\<rparr>"

text \<open>
  \<open>analyzeFile\<close>; \<open>readFileSync\<close> is the file system, a parameter.  Each \<open>Throws\<close>
  branch is the \<open>catch\<close> block, run with what \<open>results\<close> holds at that point.
\<close>

definition analyzeFile ::
  "(string \<Rightarrow> string outcome) \<Rightarrow> 'tree esprima \<Rightarrow> string \<Rightarrow> RuleEngine \<Rightarrow> MLAnalyzer \<Rightarrow>
   finding list outcome" where
  "analyzeFile readFileSync lib filePath ruleEngine mlAnalyzer =
     (case readFileSync filePath of
        Throws e \<Rightarrow> Returns ([] @ [errorFinding filePath e])
      | Diverges \<Rightarrow> Diverges
      | Returns content \<Rightarrow>
          (case parseFile lib content (extname filePath) of
             Throws e \<Rightarrow> Returns ([] @ [errorFinding filePath e])
           | Diverges \<Rightarrow> Diverges
           | Returns tree \<Rightarrow>
               (case RuleEngine_analyze ruleEngine tree content filePath of
                  Throws e \<Rightarrow> Returns ([] @ [errorFinding filePath e])
                | Diverges \<Rightarrow> Diverges
                | Returns ruleResults \<Rightarrow>
                    (case MLAnalyzer_analyze mlAnalyzer tree content filePath of
                       Throws e \<Rightarrow> Returns (([] @ ruleResults) @ [errorFinding filePath e])
                     | Diverges \<Rightarrow> Diverges
                     | Returns mlResults \<Rightarrow> Returns (([] @ ruleResults) @ mlResults)))))"

text \<open>The loop \<open>for (const file of codeFiles)\<close> of \<open>scanCommand\<close>.\<close>

fun forCodeFiles ::
  "(string \<Rightarrow> string outcome) \<Rightarrow> 'tree esprima \<Rightarrow> RuleEngine \<Rightarrow> MLAnalyzer \<Rightarrow> string list \<Rightarrow>
   finding list \<Rightarrow> finding list outcome" where
  "forCodeFiles readFileSync lib ruleEngine mlAnalyzer [] results = Returns results"
| "forCodeFiles readFileSync lib ruleEngine mlAnalyzer (file # files) results =
     (case analyzeFile readFileSync lib file ruleEngine mlAnalyzer of
        Returns fileResults \<Rightarrow>
          forCodeFiles readFileSync lib ruleEngine mlAnalyzer files (results @ fileResults)
      | Throws e \<Rightarrow> Throws e
      | Diverges \<Rightarrow> Diverges)"

section \<open>Notions used in the statements about the heuristic analyzer\<close>

text \<open>The number of matches that reach the threshold, over all detectors.\<close>

definition totalPassingMatches ::
  "ml_config \<Rightarrow> (string \<times> category_config) list \<Rightarrow> string \<Rightarrow> nat" where
  "totalPassingMatches cfg table content =
     sum_list (map (\<lambda>(cat, categoryConfig).
                      sum_list (map (\<lambda>pat. length (filter (\<lambda>m. confidenceThreshold cfg \<le> h_confidence m)
                                                       (rawMatches (d_pattern pat) content)))
                                    (c_patterns categoryConfig)))
                   table)"



text \<open>The findings one file contributes, when its analysis returns.\<close>

definition fileFindings ::
  "(string \<Rightarrow> string outcome) \<Rightarrow> 'tree esprima \<Rightarrow> RuleEngine \<Rightarrow> MLAnalyzer \<Rightarrow> string \<Rightarrow>
   finding list" where
  "fileFindings readFileSync lib ruleEngine mlAnalyzer file =
     (case analyzeFile readFileSync lib file ruleEngine mlAnalyzer of
        Returns fileResults \<Rightarrow> fileResults
      | Throws e \<Rightarrow> []
      | Diverges \<Rightarrow> [])"
section \<open>Position resolver: proofs\<close>

subsection \<open>Facts about splitting\<close>

lemma split_newline_nonempty: "split_newline s \<noteq> []"
  by (induction s) (auto split: list.splits)

lemma length_split_newline:
  "length (split_newline s) = 1 + length (filter (\<lambda>c. c = LF) s)"
  by (induction s) (auto split: list.splits simp: split_newline_nonempty)

lemma lastIndexOfLF_bounds: "-1 \<le> lastIndexOfLF s \<and> lastIndexOfLF s < int (length s)"
  by (induction s) (auto simp: Let_def)

lemma lastIndexOfLF_neg:
  "(lastIndexOfLF s < 0) = (filter (\<lambda>c. c = LF) s = [])"
  by (induction s) (auto simp: Let_def)

lemma split_newline_single:
  "(\<exists>l. split_newline s = l # []) = (filter (\<lambda>c. c = LF) s = [])"
proof -
  have "(\<exists>l. split_newline s = l # []) = (length (split_newline s) = 1)"
    by (cases "split_newline s") auto
  then show ?thesis by (simp add: length_split_newline)
qed

lemma length_last_split_newline:
  "int (length (last (split_newline s))) = int (length s) - lastIndexOfLF s - 1"
proof (induction s)
  case Nil
  show ?case by simp
next
  case (Cons c cs)
  obtain l ls where sp: "split_newline cs = l # ls"
    using split_newline_nonempty [of cs] by (cases "split_newline cs") auto
  have single: "(ls = []) = (lastIndexOfLF cs < 0)"
    using split_newline_single [of cs] sp by (simp add: lastIndexOfLF_neg)
  show ?case
  proof (cases "c = LF")
    case True
    then show ?thesis
      using Cons sp lastIndexOfLF_bounds [of cs] by (auto simp: Let_def)
  next
    case False
    show ?thesis
    proof (cases "ls = []")
      case True
      with single lastIndexOfLF_bounds [of cs] have "lastIndexOfLF cs = -1" by linarith
      with Cons sp True False show ?thesis by (simp add: Let_def)
    next
      case nonempty: False
      with single have "lastIndexOfLF cs \<ge> 0" by simp
      with Cons sp nonempty False show ?thesis by (simp add: Let_def)
    qed
  qed
qed

lemma lastIndexOfLF_is_last:
  "(0 \<le> lastIndexOfLF s \<longrightarrow> s ! nat (lastIndexOfLF s) = LF) \<and>
   (\<forall>j. lastIndexOfLF s < int j \<and> j < length s \<longrightarrow> s ! j \<noteq> LF)"
proof (induction s)
  case Nil
  show ?case by simp
next
  case (Cons c cs)
  have b: "-1 \<le> lastIndexOfLF cs" using lastIndexOfLF_bounds [of cs] by simp
  show ?case
  proof (cases "0 \<le> lastIndexOfLF cs")
    case True
    then have "nat (lastIndexOfLF cs + 1) = Suc (nat (lastIndexOfLF cs))" by simp
    with True Cons show ?thesis
      by (auto simp: Let_def nth_Cons split: nat.splits)
  next
    case False
    with b have "lastIndexOfLF cs = -1" by linarith
    with Cons show ?thesis
      by (auto simp: Let_def nth_Cons split: nat.splits)
  qed
qed

lemma lastNewlineIndexBefore_is_last:
  assumes "off \<le> length t"
  shows "lastNewlineIndexBefore t off < int off"
    and "0 \<le> lastNewlineIndexBefore t off \<Longrightarrow> t ! nat (lastNewlineIndexBefore t off) = LF"
    and "lastNewlineIndexBefore t off < int j \<Longrightarrow> j < off \<Longrightarrow> t ! j \<noteq> LF"
proof -
  let ?k = "lastIndexOfLF (take off t)"
  have len: "length (take off t) = off" using assms by simp
  show "lastNewlineIndexBefore t off < int off"
    using lastIndexOfLF_bounds [of "take off t"] len
    by (simp add: lastNewlineIndexBefore_def)
  show "t ! nat (lastNewlineIndexBefore t off) = LF" if "0 \<le> lastNewlineIndexBefore t off"
  proof -
    have "nat ?k < off"
      using lastIndexOfLF_bounds [of "take off t"] len that
      by (simp add: lastNewlineIndexBefore_def)
    moreover have "take off t ! nat ?k = LF"
      using lastIndexOfLF_is_last [of "take off t"] that
      by (simp add: lastNewlineIndexBefore_def)
    ultimately show ?thesis by (simp add: lastNewlineIndexBefore_def)
  qed
  show "t ! j \<noteq> LF" if "lastNewlineIndexBefore t off < int j" "j < off"
  proof -
    have "take off t ! j \<noteq> LF"
      using lastIndexOfLF_is_last [of "take off t"] that len
      by (simp add: lastNewlineIndexBefore_def)
    with that show ?thesis by simp
  qed
qed

lemma getLineAndColumn_resolves:
  assumes "off \<le> length t"
  shows "length (split_newline (substring0 t off)) = 1 + newlinesBefore t off"
    and "int (length (last (split_newline (substring0 t off))) + 1) =
           int off - lastNewlineIndexBefore t off"
proof -
  show "length (split_newline (substring0 t off)) = 1 + newlinesBefore t off"
    by (simp add: length_split_newline substring0_def newlinesBefore_def)
  have "length (take off t) = off" using assms by simp
  then show "int (length (last (split_newline (substring0 t off))) + 1) =
           int off - lastNewlineIndexBefore t off"
    using length_last_split_newline [of "take off t"]
    by (simp add: substring0_def lastNewlineIndexBefore_def)
qed

text \<open>
  Claim C2.  For every text \<open>t\<close> and every offset \<open>off\<close> within \<open>t\<close>
  (\<open>off \<le> length t\<close>), both copies of \<open>getLineAndColumn\<close> return a line and a
  column that are at least 1; the line is one plus the number of newline
  characters strictly before the offset, and the column is the offset minus
  the index of the last newline before it (\<open>-1\<close> when there is none).  Nothing
  is asked of the end of the text, so a text without a trailing newline is
  covered.
\<close>

theorem getLineAndColumn_line_column:
  assumes "off \<le> length t"
  shows "(case RuleEngine_getLineAndColumn t off of (lineNo, columnNo) \<Rightarrow>
            1 \<le> lineNo \<and> 1 \<le> columnNo \<and>
            lineNo = 1 + newlinesBefore t off \<and>
            int columnNo = int off - lastNewlineIndexBefore t off) \<and>
         MLAnalyzer_getLineAndColumn t off = RuleEngine_getLineAndColumn t off"
  using getLineAndColumn_resolves [OF assms]
  by (simp add: RuleEngine_getLineAndColumn_def MLAnalyzer_getLineAndColumn_def Let_def)

theorem getLineAndColumn_line_column_witness:
  "(4::nat) \<le> length (''ab'' @ [LF] @ ''cd'') \<and>
   RuleEngine_getLineAndColumn (''ab'' @ [LF] @ ''cd'') 4 = (2, 2) \<and>
   MLAnalyzer_getLineAndColumn (''ab'' @ [LF] @ ''cd'') 4 = (2, 2) \<and>
   newlinesBefore (''ab'' @ [LF] @ ''cd'') 4 = 1 \<and>
   lastNewlineIndexBefore (''ab'' @ [LF] @ ''cd'') 4 = 2"
proof -
  have h: "(4::nat) \<le> length (''ab'' @ [LF] @ ''cd'')" by simp
  have v: "newlinesBefore (''ab'' @ [LF] @ ''cd'') 4 = 1"
          "lastNewlineIndexBefore (''ab'' @ [LF] @ ''cd'') 4 = 2"
    by (simp_all add: newlinesBefore_def lastNewlineIndexBefore_def Let_def)
  show ?thesis
    using getLineAndColumn_line_column [OF h] h v
    by (auto split: prod.splits)
qed


section \<open>Strings: proofs\<close>

lemma startsWith_iff: "startsWith s p = (\<exists>q. s = p @ q)"
  by (induction s p rule: startsWith.induct) auto


section \<open>The heuristic analyzer: proofs\<close>

subsection \<open>Confidence\<close>

lemma calculateConfidence_closed:
  "calculateConfidence match0 lineContent lineNumber =
     0.5 + (if length match0 > 20 then 0.2 else 0)
         - (if hasDisableComment lineContent then 0.3 else 0)
         + (if str_includes match0 ''setInterval'' \<or> str_includes match0 ''addEventListener''
            then 0.1 else 0)"
  by (simp add: calculateConfidence_def hasDisableComment_def Let_def)

lemma calculateConfidence_range:
  "0.2 \<le> calculateConfidence match0 lineContent lineNumber"
  "calculateConfidence match0 lineContent lineNumber \<le> 0.8"
  by (simp_all add: calculateConfidence_closed)

lemma calculateConfidence_unit:
  "0 \<le> calculateConfidence match0 lineContent lineNumber"
  "calculateConfidence match0 lineContent lineNumber \<le> 1"
  by (simp_all add: calculateConfidence_def Let_def)




subsection \<open>The scanning loop\<close>

lemma line_within_lines:
  "length (split_newline (substring0 content index)) \<le> length (split_newline content)"
proof -
  have "filter (\<lambda>c. c = LF) (take index content @ drop index content) =
          filter (\<lambda>c. c = LF) (take index content) @ filter (\<lambda>c. c = LF) (drop index content)"
    by (rule filter_append)
  then have "length (filter (\<lambda>c. c = LF) (take index content))
          \<le> length (filter (\<lambda>c. c = LF) content)"
    by simp
  then show ?thesis by (simp add: length_split_newline substring0_def)
qed

lemma lineContent_defined:
  "\<exists>lineContent.
     array_get (split_newline content) (fst (MLAnalyzer_getLineAndColumn content index) - 1)
       = Some lineContent"
proof -
  have "0 < length (split_newline (substring0 content index))"
    using split_newline_nonempty [of "substring0 content index"] by simp
  with line_within_lines [of content index]
  have "length (split_newline (substring0 content index)) - 1 < length (split_newline content)"
    by linarith
  then show ?thesis
    by (simp add: array_get_def MLAnalyzer_getLineAndColumn_def Let_def)
qed

lemmas findPatternMatches_loop_unfold = findPatternMatches_loop.simps

declare findPatternMatches_loop.simps [simp del]

lemma findPatternMatches_loop_valid:
  assumes "findPatternMatches_loop p content lines lastIndex acc = Returns ms"
      and "\<forall>m \<in> set acc. validMatch content lines m"
  shows "\<forall>m \<in> set ms. validMatch content lines m"
  using assms
proof (induction "length content - lastIndex" arbitrary: lastIndex acc rule: less_induct)
  case less
  show ?case
  proof (cases "p content lastIndex")
    case None
    with less.prems show ?thesis
      by (simp add: findPatternMatches_loop_unfold [of p content lines lastIndex acc])
  next
    case (Some r)
    obtain index match0 where r: "r = (index, match0)" by (cases r)
    obtain lineNo columnNo where lc: "MLAnalyzer_getLineAndColumn content index = (lineNo, columnNo)"
      by (cases "MLAnalyzer_getLineAndColumn content index")
    show ?thesis
    proof (cases "array_get lines (lineNo - 1)")
      case None
      with less.prems Some r lc show ?thesis
        by (simp add: findPatternMatches_loop_unfold [of p content lines lastIndex acc])
    next
      case (Some lineContent)
      let ?m = "\<lparr>h_line = lineNo, h_column = columnNo,
                  h_confidence = calculateConfidence match0 lineContent lineNo,
                  h_match = match0\<rparr>"
      have vm: "validMatch content lines ?m"
        unfolding validMatch_def
        by (rule exI [of _ index], rule exI [of _ lineContent]) (use lc Some in simp)
      have step: "lastIndex < index + length match0 \<and> index + length match0 \<le> length content"
        and rec: "findPatternMatches_loop p content lines (index + length match0) (acc @ [?m])
                    = Returns ms"
        using less.prems(1) \<open>p content lastIndex = Some r\<close> r lc Some
        by (auto simp: findPatternMatches_loop_unfold [of p content lines lastIndex acc] Let_def
                 split: if_splits)
      have "length content - (index + length match0) < length content - lastIndex"
        using step by linarith
      moreover have "\<forall>m \<in> set (acc @ [?m]). validMatch content lines m"
        using less.prems(2) vm by auto
      ultimately show ?thesis using less.hyps rec by blast
    qed
  qed
qed

lemma findPatternMatches_loop_no_throw:
  "findPatternMatches_loop p content (split_newline content) lastIndex acc \<noteq> Throws e"
proof (induction "length content - lastIndex" arbitrary: lastIndex acc rule: less_induct)
  case less
  show ?case
  proof (cases "p content lastIndex")
    case None
    then show ?thesis
      by (simp add: findPatternMatches_loop_unfold [of p content _ lastIndex acc])
  next
    case (Some r)
    obtain index match0 where r: "r = (index, match0)" by (cases r)
    obtain lineNo columnNo where lc: "MLAnalyzer_getLineAndColumn content index = (lineNo, columnNo)"
      by (cases "MLAnalyzer_getLineAndColumn content index")
    obtain lineContent where ag: "array_get (split_newline content) (lineNo - 1) = Some lineContent"
      using lineContent_defined [of content index] lc by auto
    show ?thesis
    proof (cases "lastIndex < index + length match0 \<and> index + length match0 \<le> length content")
      case True
      then have "length content - (index + length match0) < length content - lastIndex"
        by linarith
      from less.hyps [OF this] Some r lc ag True show ?thesis
        by (simp add: findPatternMatches_loop_unfold [of p content _ lastIndex acc] Let_def)
    next
      case False
      with Some r lc ag show ?thesis
        by (auto simp: findPatternMatches_loop_unfold [of p content _ lastIndex acc] Let_def)
    qed
  qed
qed

lemma findPatternMatches_loop_returns:
  assumes "progressive p"
  shows "\<exists>ms. findPatternMatches_loop p content (split_newline content) lastIndex acc = Returns ms"
proof (induction "length content - lastIndex" arbitrary: lastIndex acc rule: less_induct)
  case less
  show ?case
  proof (cases "p content lastIndex")
    case None
    then show ?thesis
      by (simp add: findPatternMatches_loop_unfold [of p content _ lastIndex acc])
  next
    case (Some r)
    obtain index match0 where r: "r = (index, match0)" by (cases r)
    obtain lineNo columnNo where lc: "MLAnalyzer_getLineAndColumn content index = (lineNo, columnNo)"
      by (cases "MLAnalyzer_getLineAndColumn content index")
    obtain lineContent where ag: "array_get (split_newline content) (lineNo - 1) = Some lineContent"
      using lineContent_defined [of content index] lc by auto
    have "lastIndex \<le> index \<and> match0 \<noteq> [] \<and> index + length match0 \<le> length content"
      using assms Some r unfolding progressive_def by blast
    then have step: "lastIndex < index + length match0 \<and> index + length match0 \<le> length content"
      by (cases match0) auto
    then have "length content - (index + length match0) < length content - lastIndex"
      by linarith
    from less.hyps [OF this] Some r lc ag step show ?thesis
      by (simp add: findPatternMatches_loop_unfold [of p content _ lastIndex acc] Let_def)
  qed
qed

lemma rawMatches_valid:
  assumes "m \<in> set (rawMatches p content)"
  shows "validMatch content (split_newline content) m"
proof -
  show ?thesis
  proof (cases "findPatternMatches_loop p content (split_newline content) 0 []")
    case (Returns ms)
    with assms have "m \<in> set ms" by (simp add: rawMatches_def findPatternMatches_def)
    with findPatternMatches_loop_valid [OF Returns] show ?thesis by simp
  next
    case (Throws e)
    with assms show ?thesis by (simp add: rawMatches_def findPatternMatches_def)
  next
    case Diverges
    with assms show ?thesis by (simp add: rawMatches_def findPatternMatches_def)
  qed
qed

lemma validMatch_confidence:
  assumes "validMatch content lines m"
  shows "0 \<le> h_confidence m" and "h_confidence m \<le> 1"
  using assms calculateConfidence_unit unfolding validMatch_def by auto

subsection \<open>The three loops\<close>

lemma forMatches_eq:
  "forMatches cfg cat categoryConfig pat filePath ms results =
     results @ map (heuristicFinding cat categoryConfig pat filePath)
                   (filter (\<lambda>m. confidenceThreshold cfg \<le> h_confidence m) ms)"
  by (induction ms arbitrary: results) auto

lemma forPatterns_Returns:
  assumes "forPatterns cfg content (split_newline content) filePath cat categoryConfig pats results
             = Returns rs"
  shows "rs = results @ concat (map (detectorFindings cfg content filePath cat categoryConfig) pats)"
  using assms
proof (induction pats arbitrary: results)
  case Nil
  then show ?case by simp
next
  case (Cons pat pats)
  from Cons.prems obtain ms where
      ms: "findPatternMatches (d_pattern pat) content (split_newline content) = Returns ms"
    and rest: "forPatterns cfg content (split_newline content) filePath cat categoryConfig pats
                 (forMatches cfg cat categoryConfig pat filePath ms results) = Returns rs"
    by (cases "findPatternMatches (d_pattern pat) content (split_newline content)") auto
  have "detectorFindings cfg content filePath cat categoryConfig pat =
          map (heuristicFinding cat categoryConfig pat filePath)
              (filter (\<lambda>m. confidenceThreshold cfg \<le> h_confidence m) ms)"
    using ms by (simp add: detectorFindings_def rawMatches_def)
  with Cons.IH [OF rest] show ?case by (simp add: forMatches_eq)
qed

lemma forCategories_Returns:
  assumes "forCategories cfg content (split_newline content) filePath table results = Returns rs"
  shows "rs = results @ scanOrder cfg content filePath table"
  using assms
proof (induction table arbitrary: results)
  case Nil
  then show ?case by (simp add: scanOrder_def)
next
  case (Cons entry table)
  obtain cat categoryConfig where e: "entry = (cat, categoryConfig)" by (cases entry)
  from Cons.prems e obtain mid where
      mid: "forPatterns cfg content (split_newline content) filePath cat categoryConfig
              (c_patterns categoryConfig) results = Returns mid"
    and rest: "forCategories cfg content (split_newline content) filePath table mid = Returns rs"
    by (auto split: outcome.splits)
  from forPatterns_Returns [OF mid] Cons.IH [OF rest] e show ?case
    by (simp add: scanOrder_def)
qed

lemma forPatterns_no_throw:
  "forPatterns cfg content (split_newline content) filePath cat categoryConfig pats results
     \<noteq> Throws e"
  by (induction pats arbitrary: results)
     (auto simp: findPatternMatches_def findPatternMatches_loop_no_throw split: outcome.splits)

lemma forCategories_no_throw:
  "forCategories cfg content (split_newline content) filePath table results \<noteq> Throws e"
proof (induction table arbitrary: results)
  case Nil
  show ?case by simp
next
  case (Cons entry table)
  obtain cat categoryConfig where e: "entry = (cat, categoryConfig)" by (cases entry)
  show ?case using Cons.IH forPatterns_no_throw e
    by (auto split: outcome.splits)
qed


subsection \<open>The built-in patterns always move the cursor\<close>

declare matchEnds.simps [simp del]

lemma matchEnds_bounds:
  "i \<le> length s \<Longrightarrow> j \<in> set (matchEnds r s i) \<Longrightarrow> i + minLen r \<le> j \<and> j \<le> length s"
proof (induction r s i arbitrary: j rule: matchEnds.induct)
  case (1 l s i)
  then obtain q where "drop i s = l @ q" and j: "j = i + length l"
    by (auto simp: matchEnds.simps startsWith_iff split: if_splits)
  then have "length l \<le> length (drop i s)" by simp
  with 1 j show ?case by simp
next
  case (2 p s i)
  then show ?case by (auto simp: matchEnds.simps split: if_splits)
next
  case (3 a b s i)
  from "3.prems" obtain k where k: "k \<in> set (matchEnds a s i)" and j: "j \<in> set (matchEnds b s k)"
    by (auto simp: matchEnds.simps(3))
  from "3.IH"(1) [OF "3.prems"(1) k] have ka: "i + minLen a \<le> k" and kl: "k \<le> length s" by auto
  from "3.IH"(2) [OF k kl j] ka show ?case by simp
next
  case (4 a b s i)
  from "4.prems" consider "j \<in> set (matchEnds a s i)" | "j \<in> set (matchEnds b s i)"
    by (auto simp: matchEnds.simps(4))
  then show ?case
  proof cases
    case 1
    from "4.IH"(1) [OF "4.prems"(1) 1] show ?thesis by (simp add: min_def)
  next
    case 2
    from "4.IH"(2) [OF "4.prems"(1) 2] show ?thesis by (simp add: min_def)
  qed
next
  case (5 a s i)
  have unfolded: "j \<in> set (concat (map (\<lambda>k. if i < k \<and> k \<le> length s
                                             then matchEnds (Star a) s k else [])
                                     (matchEnds a s i)) @ [i])"
    using "5.prems"(2) unfolding matchEnds.simps(5) [of a s i] .
  show ?case
  proof (cases "j = i")
    case True
    with "5.prems" show ?thesis by simp
  next
    case False
    with unfolded obtain k where k: "k \<in> set (matchEnds a s i)"
      and ik: "i < k \<and> k \<le> length s" and j: "j \<in> set (matchEnds (Star a) s k)"
      by (auto split: if_splits)
    from "5.IH"(2) [OF k ik _ j] ik show ?thesis by simp
  qed
next
  case (6 a s i)
  then show ?case by (auto simp: matchEnds.simps split: if_splits)
next
  case (7 s i)
  then show ?case by (auto simp: matchEnds.simps split: if_splits)
next
  case (8 s i)
  then show ?case by (auto simp: matchEnds.simps split: if_splits)
next
  case (9 s i)
  then show ?case by (auto simp: matchEnds.simps split: if_splits)
qed

lemma firstMatch_found:
  "firstMatch r s i n = Some (i', m) \<Longrightarrow> i + n \<le> Suc (length s) \<Longrightarrow>
     i \<le> i' \<and> i' \<le> length s \<and> (\<exists>e \<in> set (matchEnds r s i'). m = take (e - i') (drop i' s))"
proof (induction n arbitrary: i)
  case 0
  then show ?case by simp
next
  case (Suc n)
  show ?case
  proof (cases "matchEnds r s i")
    case Nil
    with Suc.prems have "firstMatch r s (Suc i) n = Some (i', m)" by simp
    from Suc.IH [OF this] Suc.prems(2) show ?thesis by auto
  next
    case (Cons e es)
    with Suc.prems show ?thesis by auto
  qed
qed

lemma regex_exec_progressive:
  assumes "0 < minLen r"
  shows "progressive (regex_exec r)"
  unfolding progressive_def
proof (intro allI impI)
  fix s lastIndex index m
  assume ex: "regex_exec r s lastIndex = Some (index, m)"
  have le: "lastIndex \<le> Suc (length s)"
  proof (rule ccontr)
    assume "\<not> lastIndex \<le> Suc (length s)"
    then have "Suc (length s) - lastIndex = 0" by simp
    with ex show False by (simp add: regex_exec_def)
  qed
  from ex have "firstMatch r s lastIndex (Suc (length s) - lastIndex) = Some (index, m)"
    by (simp add: regex_exec_def)
  from firstMatch_found [OF this] le obtain e where
      li: "lastIndex \<le> index" and il: "index \<le> length s"
    and e: "e \<in> set (matchEnds r s index)" and m: "m = take (e - index) (drop index s)"
    by auto
  from matchEnds_bounds [OF il e] have eb: "index + minLen r \<le> e" "e \<le> length s" by auto
  with m have "length m = e - index" by simp
  with eb assms li show "lastIndex \<le> index \<and> m \<noteq> [] \<and> index + length m \<le> length s"
    by (cases m) auto
qed

lemma builtin_minLen:
  "0 < minLen rx_async_await_misuse"
  "0 < minLen rx_promise_chain_missing_catch"
  "0 < minLen rx_event_listener_no_removal"
  "0 < minLen rx_setinterval_no_clear"
  "0 < minLen rx_optional_chaining_missing"
  "0 < minLen rx_array_access_no_bounds_check"
  "0 < minLen rx_loose_equality"
  "0 < minLen rx_loose_inequality"
  "0 < minLen rx_nested_loops"
  "0 < minLen rx_string_concatenation_in_loop"
  by (simp_all add: rx_async_await_misuse_def rx_promise_chain_missing_catch_def
        rx_event_listener_no_removal_def rx_setinterval_no_clear_def
        rx_optional_chaining_missing_def rx_array_access_no_bounds_check_def
        rx_loose_equality_def rx_loose_inequality_def rx_nested_loops_def
        rx_string_concatenation_in_loop_def parenthesised_def Plus_def anyBut_def)

lemma getHeuristicPatterns_progressive:
  "(cat, categoryConfig) \<in> set getHeuristicPatterns \<Longrightarrow> pat \<in> set (c_patterns categoryConfig)
     \<Longrightarrow> progressive (d_pattern pat)"
  by (auto simp: getHeuristicPatterns_def regex_exec_progressive builtin_minLen)

subsection \<open>When the loops return\<close>

lemma forPatterns_returns:
  assumes "\<forall>pat \<in> set pats. progressive (d_pattern pat)"
  shows "\<exists>rs. forPatterns cfg content (split_newline content) filePath cat categoryConfig pats results
                = Returns rs"
  using assms
proof (induction pats arbitrary: results)
  case Nil
  show ?case by simp
next
  case (Cons pat pats)
  then have "progressive (d_pattern pat)" by simp
  from findPatternMatches_loop_returns [OF this, of content 0 "[]"] obtain ms where
    "findPatternMatches (d_pattern pat) content (split_newline content) = Returns ms"
    by (auto simp: findPatternMatches_def)
  with Cons show ?case by simp
qed

lemma forCategories_returns:
  assumes "\<forall>(cat, categoryConfig) \<in> set table.
             \<forall>pat \<in> set (c_patterns categoryConfig). progressive (d_pattern pat)"
  shows "\<exists>rs. forCategories cfg content (split_newline content) filePath table results = Returns rs"
  using assms
proof (induction table arbitrary: results)
  case Nil
  show ?case by simp
next
  case (Cons entry table)
  obtain cat categoryConfig where e: "entry = (cat, categoryConfig)" by (cases entry)
  with Cons.prems have "\<forall>pat \<in> set (c_patterns categoryConfig). progressive (d_pattern pat)"
    by simp
  from forPatterns_returns [OF this] obtain mid where
    "forPatterns cfg content (split_newline content) filePath cat categoryConfig
       (c_patterns categoryConfig) results = Returns mid" by blast
  moreover from Cons.IH [of mid] Cons.prems obtain rs where
    "forCategories cfg content (split_newline content) filePath table mid = Returns rs" by auto
  ultimately show ?case using e by simp
qed

lemma analyzeWithHeuristics_Returns:
  "analyzeWithHeuristics cfg m content filePath = Returns found \<Longrightarrow>
     found = scanOrder cfg content filePath (m_patterns m)"
  using forCategories_Returns [of cfg content filePath "m_patterns m" "[]" found]
  by (simp add: analyzeWithHeuristics_def)

lemma analyzeWithHeuristics_no_throw:
  "analyzeWithHeuristics cfg m content filePath \<noteq> Throws e"
  by (simp add: analyzeWithHeuristics_def forCategories_no_throw)

lemma analyzeWithHeuristics_builtin:
  "analyzeWithHeuristics cfg
     \<lparr>m_type = ''heuristic'', m_version = ''1.0.0'', m_patterns = getHeuristicPatterns\<rparr>
     content filePath = Returns (scanOrder cfg content filePath getHeuristicPatterns)"
proof -
  have "\<forall>(cat, categoryConfig) \<in> set getHeuristicPatterns.
          \<forall>pat \<in> set (c_patterns categoryConfig). progressive (d_pattern pat)"
    using getHeuristicPatterns_progressive by blast
  from forCategories_returns [OF this, of cfg content filePath "[]"] obtain rs where
    rs: "forCategories cfg content (split_newline content) filePath getHeuristicPatterns [] = Returns rs"
    by blast
  with forCategories_Returns [OF rs] show ?thesis
    by (simp add: analyzeWithHeuristics_def)
qed

text \<open>What \<open>analyze\<close> returns, case by case.\<close>

lemma MLAnalyzer_analyze_disabled:
  "\<not> enabled (config this) \<Longrightarrow> MLAnalyzer_analyze this ast content filePath = Returns []"
  by (simp add: MLAnalyzer_analyze_def split: option.splits)

lemma MLAnalyzer_analyze_Returns:
  assumes "MLAnalyzer_analyze this ast content filePath = Returns out"
  shows "\<exists>table. out = slice0 (scanOrder (config this) content filePath table)
                          (maxWarningsPerFile (config this)) \<and>
           (table = [] \<or> (\<exists>m. model this = Some m \<and> table = m_patterns m \<and>
                               m_type m = ''heuristic'' \<and> enabled (config this)))"
proof (cases "model this")
  case None
  with assms have "out = []" by (simp add: MLAnalyzer_analyze_def)
  then have "out = slice0 (scanOrder (config this) content filePath [])
                          (maxWarningsPerFile (config this))"
    by (simp add: scanOrder_def slice0_def)
  then show ?thesis by blast
next
  case (Some m)
  show ?thesis
  proof (cases "enabled (config this) \<and> m_type m = ''heuristic''")
    case True
    with assms Some obtain found where
        f: "analyzeWithHeuristics (config this) m content filePath = Returns found"
      and o: "out = slice0 found (maxWarningsPerFile (config this))"
      using analyzeWithHeuristics_no_throw [of "config this" m content filePath]
      by (cases "analyzeWithHeuristics (config this) m content filePath")
         (auto simp: MLAnalyzer_analyze_def)
    from analyzeWithHeuristics_Returns [OF f] o Some True show ?thesis by blast
  next
    case False
    with assms Some have "out = []"
      by (auto simp: MLAnalyzer_analyze_def analyzeWithMLModel_def slice0_def split: if_splits)
    then have "out = slice0 (scanOrder (config this) content filePath [])
                          (maxWarningsPerFile (config this))"
      by (simp add: scanOrder_def slice0_def)
    then show ?thesis by blast
  qed
qed

lemma set_slice0: "set (slice0 xs k) \<subseteq> set xs"
  by (auto simp: slice0_def dest: in_set_takeD)

lemma MLAnalyzer_new_analyze:
  "MLAnalyzer_analyze (MLAnalyzer_new opts) ast content filePath =
     Returns (if enabled (config (MLAnalyzer_new opts))
              then slice0 (scanOrder (config (MLAnalyzer_new opts)) content filePath
                             getHeuristicPatterns)
                          (maxWarningsPerFile (config (MLAnalyzer_new opts)))
              else [])"
proof -
  have m: "model (MLAnalyzer_new opts) =
        Some \<lparr>m_type = ''heuristic'', m_version = ''1.0.0'', m_patterns = getHeuristicPatterns\<rparr>"
    by (simp add: MLAnalyzer_new_def initializeModel_def)
  show ?thesis
    unfolding MLAnalyzer_analyze_def m
    by (simp add: analyzeWithHeuristics_builtin)
qed

lemma scanOrder_member:
  assumes "f \<in> set (scanOrder cfg content filePath table)"
  shows "\<exists>cat categoryConfig pat m.
           (cat, categoryConfig) \<in> set table \<and> pat \<in> set (c_patterns categoryConfig) \<and>
           m \<in> set (rawMatches (d_pattern pat) content) \<and>
           confidenceThreshold cfg \<le> h_confidence m \<and>
           f = heuristicFinding cat categoryConfig pat filePath m"
  using assms unfolding scanOrder_def detectorFindings_def by fastforce

section \<open>The risk score: proofs\<close>

lemma countResult_counts:
  "errors (countResult s f) = errors s + (if severity f = Some ''error'' then 1 else 0)"
  "warnings (countResult s f) = warnings s + (if severity f = Some ''warning'' then 1 else 0)"
  "total (countResult s f) = total s"
  "riskScore (countResult s f) = riskScore s"
  by (simp_all add: countResult_def Let_def split: option.splits)

lemma foldl_countResult_counts:
  "errors (foldl countResult s fs) =
     errors s + length (filter (\<lambda>r. severity r = Some ''error'') fs)"
  "warnings (foldl countResult s fs) =
     warnings s + length (filter (\<lambda>r. severity r = Some ''warning'') fs)"
  "total (foldl countResult s fs) = total s"
  "riskScore (foldl countResult s fs) = riskScore s"
  by (induction fs arbitrary: s) (simp_all add: countResult_counts)

lemma sum_severityWeight:
  "sum_list (map severityWeight fs) =
     length (filter (\<lambda>r. severity r = Some ''error'') fs) * 3 +
     length (filter (\<lambda>r. severity r = Some ''warning'') fs) * 1"
  by (induction fs) (auto simp: severityWeight_def)

lemma OutputFormatter_riskScore:
  "riskScore (OutputFormatter_generateSummary fs) = Num (spec_riskScore fs)"
proof (cases fs)
  case Nil
  then show ?thesis
    by (simp add: OutputFormatter_generateSummary_def spec_riskScore_def)
next
  case (Cons f fs')
  then have ne: "fs \<noteq> []" "length fs > 0" by simp_all
  then show ?thesis
    unfolding OutputFormatter_generateSummary_def spec_riskScore_def Let_def
    by (simp add: foldl_countResult_counts sum_severityWeight divide_counts_def
          times_number_def Math_round_def Math_min_def)
qed

lemma scan_riskScore_rated:
  assumes "\<forall>f \<in> set fs. severity f = Some ''error'' \<or> severity f = Some ''warning''"
  shows "scan_riskScore (scan_generateSummary fs) = Num (spec_riskScore fs)"
proof (cases fs)
  case Nil
  then show ?thesis by (simp add: scan_generateSummary_def spec_riskScore_def)
next
  case (Cons f fs')
  then have ne: "fs \<noteq> []" "length fs > 0" by simp_all
  have "length (filter (\<lambda>r. severity r = Some ''warning'') fs) +
        length (filter (\<lambda>r. severity r = Some ''error'') fs) = length fs"
    using assms by (induction fs) auto
  with ne show ?thesis
    unfolding scan_generateSummary_def spec_riskScore_def Let_def
    by (simp add: sum_severityWeight divide_counts_def times_number_def Math_round_def
          Math_min_def)
qed

lemma riskScore_examples:
  "spec_riskScore [] = 0"
  "spec_riskScore [errorFinding ''a.js'' ''unreadable''] = 60"
  "spec_riskScore (replicate 10 ((errorFinding ''a.js'' ''x'')\<lparr>severity := Some ''warning''\<rparr>)) = 20"
  by code_simp+

lemma riskScore_examples_both:
  "riskScore (OutputFormatter_generateSummary []) = Num 0"
  "scan_riskScore (scan_generateSummary []) = Num 0"
  "riskScore (OutputFormatter_generateSummary [errorFinding ''a.js'' ''unreadable'']) = Num 60"
  "scan_riskScore (scan_generateSummary [errorFinding ''a.js'' ''unreadable'']) = Num 60"
  "riskScore (OutputFormatter_generateSummary
     (replicate 10 ((errorFinding ''a.js'' ''x'')\<lparr>severity := Some ''warning''\<rparr>))) = Num 20"
  "scan_riskScore (scan_generateSummary
     (replicate 10 ((errorFinding ''a.js'' ''x'')\<lparr>severity := Some ''warning''\<rparr>))) = Num 20"
  by code_simp+


subsection \<open>Claims about the heuristic analyzer\<close>

lemma in_slice0D: "x \<in> set (slice0 xs k) \<Longrightarrow> x \<in> set xs"
  by (rule subsetD [OF set_slice0])

lemma scanOrder_confidence:
  assumes "f \<in> set (scanOrder cfg content filePath table)"
  shows "\<exists>c. confidence f = Some c \<and> 0 \<le> c \<and> c \<le> 1 \<and> confidenceThreshold cfg \<le> c"
proof -
  from scanOrder_member [OF assms] obtain cat categoryConfig pat m where
      m: "m \<in> set (rawMatches (d_pattern pat) content)"
    and t: "confidenceThreshold cfg \<le> h_confidence m"
    and f: "f = heuristicFinding cat categoryConfig pat filePath m"
    by blast
  from validMatch_confidence [OF rawMatches_valid [OF m]] t f show ?thesis
    by (simp add: heuristicFinding_def)
qed

lemma scanOrder_above_one:
  assumes "1 < confidenceThreshold cfg"
  shows "scanOrder cfg content filePath table = []"
proof (rule ccontr)
  assume "scanOrder cfg content filePath table \<noteq> []"
  then obtain f where "f \<in> set (scanOrder cfg content filePath table)"
    by (cases "scanOrder cfg content filePath table") auto
  from scanOrder_confidence [OF this] assms show False by auto
qed

text \<open>
  Claim C5.  Every finding that \<open>analyze\<close> returns has a confidence between 0 and
  1 that is at least the configured threshold, so the finding of a match whose
  confidence is below the threshold is not in the output.  An analyzer made by
  the constructor returns on every text, and returns the empty sequence when
  its threshold is above 1; any analyzer whose threshold is above 1 returns
  nothing but the empty sequence.
\<close>

theorem MLAnalyzer_analyze_threshold:
  "(MLAnalyzer_analyze this ast content filePath = Returns out \<longrightarrow>
      (\<forall>f \<in> set out. \<exists>c. confidence f = Some c \<and> 0 \<le> c \<and> c \<le> 1 \<and>
                            confidenceThreshold (config this) \<le> c)) \<and>
   (MLAnalyzer_analyze this ast content filePath = Returns out \<and>
      h_confidence m < confidenceThreshold (config this) \<longrightarrow>
      heuristicFinding cat categoryConfig pat filePath m \<notin> set out) \<and>
   (1 < confidenceThreshold (config this) \<and>
      MLAnalyzer_analyze this ast content filePath = Returns out \<longrightarrow> out = []) \<and>
   (\<exists>out'. MLAnalyzer_analyze (MLAnalyzer_new opts) ast content filePath = Returns out') \<and>
   (1 < confidenceThreshold (config (MLAnalyzer_new opts)) \<longrightarrow>
      MLAnalyzer_analyze (MLAnalyzer_new opts) ast content filePath = Returns [])"
proof (intro conjI impI)
  assume r: "MLAnalyzer_analyze this ast content filePath = Returns out"
  from MLAnalyzer_analyze_Returns [OF r] obtain table where
    out: "out = slice0 (scanOrder (config this) content filePath table)
                       (maxWarningsPerFile (config this))" by blast
  show "\<forall>f \<in> set out. \<exists>c. confidence f = Some c \<and> 0 \<le> c \<and> c \<le> 1 \<and>
                            confidenceThreshold (config this) \<le> c"
  proof
    fix f assume "f \<in> set out"
    then have "f \<in> set (scanOrder (config this) content filePath table)"
      unfolding out by (rule in_slice0D)
    from scanOrder_confidence [OF this] show "\<exists>c. confidence f = Some c \<and> 0 \<le> c \<and> c \<le> 1 \<and>
                            confidenceThreshold (config this) \<le> c" .
  qed
next
  assume a: "MLAnalyzer_analyze this ast content filePath = Returns out \<and>
      h_confidence m < confidenceThreshold (config this)"
  then have r: "MLAnalyzer_analyze this ast content filePath = Returns out" by simp
  from MLAnalyzer_analyze_Returns [OF r] obtain table where
    out: "out = slice0 (scanOrder (config this) content filePath table)
                       (maxWarningsPerFile (config this))" by blast
  show "heuristicFinding cat categoryConfig pat filePath m \<notin> set out"
  proof
    assume "heuristicFinding cat categoryConfig pat filePath m \<in> set out"
    then have "heuristicFinding cat categoryConfig pat filePath m
            \<in> set (scanOrder (config this) content filePath table)"
      unfolding out by (rule in_slice0D)
    from scanOrder_confidence [OF this] a show False
      by (simp add: heuristicFinding_def)
  qed
next
  assume a: "1 < confidenceThreshold (config this) \<and>
      MLAnalyzer_analyze this ast content filePath = Returns out"
  then have r: "MLAnalyzer_analyze this ast content filePath = Returns out" by simp
  from MLAnalyzer_analyze_Returns [OF r] obtain table where
    out: "out = slice0 (scanOrder (config this) content filePath table)
                       (maxWarningsPerFile (config this))" by blast
  from a have "scanOrder (config this) content filePath table = []"
    by (simp add: scanOrder_above_one)
  with out show "out = []" by (simp add: slice0_def)
next
  show "\<exists>out'. MLAnalyzer_analyze (MLAnalyzer_new opts) ast content filePath = Returns out'"
    by (simp add: MLAnalyzer_new_analyze)
next
  assume "1 < confidenceThreshold (config (MLAnalyzer_new opts))"
  then show "MLAnalyzer_analyze (MLAnalyzer_new opts) ast content filePath = Returns []"
    by (simp add: MLAnalyzer_new_analyze scanOrder_above_one slice0_def)
qed

theorem MLAnalyzer_analyze_threshold_witness:
  "MLAnalyzer_analyze
     (MLAnalyzer_new \<lparr>opt_enabled = None, opt_confidenceThreshold = Some 0.45,
                       opt_maxWarningsPerFile = None\<rparr>) () ''a == b'' ''f.js'' =
     Returns [\<lparr>type = ''ml'', severity = Some ''warning'', file' = ''f.js'', line = 1, column = 3,
       message = Some ''Use strict equality (===) instead of loose equality (==)'',
       rule = ''type-safety-loose-equality'', code = None,
       suggestion = Some ''Replace == with === for strict equality comparison'',
       confidence = Some 0.5, category = Some ''type-safety''\<rparr>] \<and>
   (\<exists>c. Some (0.5 :: rat) = Some c \<and> 0 \<le> c \<and> c \<le> 1 \<and> 0.45 \<le> c) \<and>
   1 < confidenceThreshold (config
         (MLAnalyzer_new \<lparr>opt_enabled = None, opt_confidenceThreshold = Some 1.5,
                           opt_maxWarningsPerFile = None\<rparr>)) \<and>
   MLAnalyzer_analyze
     (MLAnalyzer_new \<lparr>opt_enabled = None, opt_confidenceThreshold = Some 1.5,
                       opt_maxWarningsPerFile = None\<rparr>) () ''a == b'' ''f.js'' = Returns []"
proof -
  let ?A = "MLAnalyzer_new \<lparr>opt_enabled = None, opt_confidenceThreshold = Some 0.45,
                             opt_maxWarningsPerFile = None\<rparr>"
  let ?optsB = "\<lparr>opt_enabled = None, opt_confidenceThreshold = Some 1.5,
                 opt_maxWarningsPerFile = None\<rparr>"
  let ?F = "\<lparr>type = ''ml'', severity = Some ''warning'', file' = ''f.js'', line = 1, column = 3,
       message = Some ''Use strict equality (===) instead of loose equality (==)'',
       rule = ''type-safety-loose-equality'', code = None,
       suggestion = Some ''Replace == with === for strict equality comparison'',
       confidence = Some 0.5, category = Some ''type-safety''\<rparr>"
  have run: "MLAnalyzer_analyze ?A () ''a == b'' ''f.js'' = Returns [?F]"
    by code_simp
  have thrA: "confidenceThreshold (config ?A) = 0.45"
    by (simp add: MLAnalyzer_new_def)
  have thrB: "1 < confidenceThreshold (config (MLAnalyzer_new ?optsB))"
    by (simp add: MLAnalyzer_new_def)
  note claim = MLAnalyzer_analyze_threshold
                 [where this = ?A and ast = "()" and content = "''a == b''" and filePath = "''f.js''"
                    and out = "[?F]" and opts = ?optsB]
  from claim run have "\<forall>f \<in> set [?F]. \<exists>c. confidence f = Some c \<and> 0 \<le> c \<and> c \<le> 1 \<and>
                            confidenceThreshold (config ?A) \<le> c"
    by blast
  then have inRange: "\<exists>c. Some (0.5 :: rat) = Some c \<and> 0 \<le> c \<and> c \<le> 1 \<and> 0.45 \<le> c"
    unfolding thrA by simp
  from claim thrB have empty: "MLAnalyzer_analyze (MLAnalyzer_new ?optsB) () ''a == b'' ''f.js'' = Returns []"
    by blast
  from run inRange thrB empty show ?thesis by blast
qed

lemma length_scanOrder:
  "length (scanOrder cfg content filePath table) = totalPassingMatches cfg table content"
proof (induction table)
  case Nil
  show ?case by (simp add: scanOrder_def totalPassingMatches_def)
next
  case (Cons entry table)
  obtain cat categoryConfig where e: "entry = (cat, categoryConfig)" by (cases entry)
  have inner: "length (concat (map (detectorFindings cfg content filePath cat categoryConfig) pats)) =
          sum_list (map (\<lambda>pat. length (filter (\<lambda>m. confidenceThreshold cfg \<le> h_confidence m)
                                           (rawMatches (d_pattern pat) content))) pats)" for pats
    by (induction pats) (simp_all add: detectorFindings_def)
  from Cons e inner show ?case
    by (simp add: scanOrder_def totalPassingMatches_def)
qed

lemma totalPassingMatches_le:
  "totalPassingMatches cfg table content \<le> totalRawMatches table content"
proof (induction table)
  case Nil
  show ?case by (simp add: totalPassingMatches_def totalRawMatches_def)
next
  case (Cons entry table)
  obtain cat categoryConfig where e: "entry = (cat, categoryConfig)" by (cases entry)
  have inner: "sum_list (map (\<lambda>pat. length (filter (\<lambda>m. confidenceThreshold cfg \<le> h_confidence m)
                                           (rawMatches (d_pattern pat) content))) pats)
          \<le> sum_list (map (\<lambda>pat. length (rawMatches (d_pattern pat) content)) pats)" for pats
  proof (induction pats)
    case Nil
    show ?case by simp
  next
    case (Cons pat pats)
    have "length (filter (\<lambda>m. confidenceThreshold cfg \<le> h_confidence m)
                    (rawMatches (d_pattern pat) content))
            \<le> length (rawMatches (d_pattern pat) content)"
      by (rule length_filter_le)
    from add_mono [OF this Cons] show ?case by simp
  qed
  from Cons e inner [of "c_patterns categoryConfig"] show ?case
    by (simp add: totalPassingMatches_def totalRawMatches_def)
qed

text \<open>
  Claim C6, as the code has it.  With \<open>maxWarningsPerFile = k \<ge> 0\<close> and the
  analyzer enabled, \<open>analyze\<close> returns the first \<open>k\<close> findings of the scan order
  (category, then detector, then occurrence), where only the matches whose
  confidence reaches the threshold make findings: the length of the output is
  the minimum of \<open>k\<close> and the number of those matches, which is at most the
  number of raw matches.  An analyzer made by the constructor always returns.
\<close>

theorem MLAnalyzer_analyze_truncation:
  "(0 \<le> maxWarningsPerFile (config this) \<and> enabled (config this) \<and>
    model this = Some m \<and> m_type m = ''heuristic'' \<and>
    MLAnalyzer_analyze this ast content filePath = Returns out \<longrightarrow>
      out = take (nat (maxWarningsPerFile (config this)))
                 (scanOrder (config this) content filePath (m_patterns m)) \<and>
      length out = min (nat (maxWarningsPerFile (config this)))
                       (totalPassingMatches (config this) (m_patterns m) content) \<and>
      totalPassingMatches (config this) (m_patterns m) content
        \<le> totalRawMatches (m_patterns m) content) \<and>
   (0 \<le> maxWarningsPerFile (config (MLAnalyzer_new opts)) \<and>
    enabled (config (MLAnalyzer_new opts)) \<longrightarrow>
      MLAnalyzer_analyze (MLAnalyzer_new opts) ast content filePath =
        Returns (take (nat (maxWarningsPerFile (config (MLAnalyzer_new opts))))
                   (scanOrder (config (MLAnalyzer_new opts)) content filePath
                      getHeuristicPatterns)))"
proof (intro conjI impI)
  assume a: "0 \<le> maxWarningsPerFile (config this) \<and> enabled (config this) \<and>
    model this = Some m \<and> m_type m = ''heuristic'' \<and>
    MLAnalyzer_analyze this ast content filePath = Returns out"
  then have k: "0 \<le> maxWarningsPerFile (config this)" and en: "enabled (config this)"
    and mo: "model this = Some m" and ty: "m_type m = ''heuristic''"
    and r: "MLAnalyzer_analyze this ast content filePath = Returns out" by simp_all
  from r en mo ty obtain found where
      f: "analyzeWithHeuristics (config this) m content filePath = Returns found"
    and o: "out = slice0 found (maxWarningsPerFile (config this))"
    using analyzeWithHeuristics_no_throw [of "config this" m content filePath]
    by (cases "analyzeWithHeuristics (config this) m content filePath")
       (auto simp: MLAnalyzer_analyze_def)
  from analyzeWithHeuristics_Returns [OF f] o k
  show out: "out = take (nat (maxWarningsPerFile (config this)))
                 (scanOrder (config this) content filePath (m_patterns m))"
    by (simp add: slice0_def)
  show "length out = min (nat (maxWarningsPerFile (config this)))
                       (totalPassingMatches (config this) (m_patterns m) content)"
    unfolding out by (simp add: length_scanOrder min.commute)
  show "totalPassingMatches (config this) (m_patterns m) content
        \<le> totalRawMatches (m_patterns m) content"
    by (rule totalPassingMatches_le)
next
  assume "0 \<le> maxWarningsPerFile (config (MLAnalyzer_new opts)) \<and>
    enabled (config (MLAnalyzer_new opts))"
  then show "MLAnalyzer_analyze (MLAnalyzer_new opts) ast content filePath =
        Returns (take (nat (maxWarningsPerFile (config (MLAnalyzer_new opts))))
                   (scanOrder (config (MLAnalyzer_new opts)) content filePath
                      getHeuristicPatterns))"
    by (simp add: MLAnalyzer_new_analyze slice0_def)
qed

text \<open>
  Claim C6 as stated fails: with the default configuration (\<open>k = 10\<close>, threshold
  0.7) the text \<open>a == b\<close> has one raw match, of confidence 0.5, and the output
  is empty, not of length \<open>min(10, 1)\<close>.
\<close>

theorem MLAnalyzer_analyze_truncation_counterexample:
  "\<exists>out. MLAnalyzer_analyze
            (MLAnalyzer_new \<lparr>opt_enabled = None, opt_confidenceThreshold = None,
                              opt_maxWarningsPerFile = None\<rparr>) () ''a == b'' ''f.js''
            = Returns out \<and>
         maxWarningsPerFile (config
            (MLAnalyzer_new \<lparr>opt_enabled = None, opt_confidenceThreshold = None,
                              opt_maxWarningsPerFile = None\<rparr>)) = 10 \<and>
         totalRawMatches getHeuristicPatterns ''a == b'' = 1 \<and>
         length out \<noteq> min 10 1"
proof -
  have "MLAnalyzer_analyze
            (MLAnalyzer_new \<lparr>opt_enabled = None, opt_confidenceThreshold = None,
                              opt_maxWarningsPerFile = None\<rparr>) () ''a == b'' ''f.js''
            = Returns []"
    by code_simp
  moreover have "totalRawMatches getHeuristicPatterns ''a == b'' = 1"
    by code_simp
  moreover have "maxWarningsPerFile (config
            (MLAnalyzer_new \<lparr>opt_enabled = None, opt_confidenceThreshold = None,
                              opt_maxWarningsPerFile = None\<rparr>)) = 10"
    by (simp add: MLAnalyzer_new_def)
  ultimately show ?thesis by simp
qed

theorem MLAnalyzer_analyze_truncation_witness:
  "MLAnalyzer_analyze
     (MLAnalyzer_new \<lparr>opt_enabled = None, opt_confidenceThreshold = Some 0.45,
                       opt_maxWarningsPerFile = Some 1\<rparr>) () ''a == b != c'' ''f.js''
     = Returns (take 1 (scanOrder
         (config (MLAnalyzer_new \<lparr>opt_enabled = None, opt_confidenceThreshold = Some 0.45,
                                   opt_maxWarningsPerFile = Some 1\<rparr>))
         ''a == b != c'' ''f.js'' getHeuristicPatterns)) \<and>
   length (take 1 (scanOrder
         (config (MLAnalyzer_new \<lparr>opt_enabled = None, opt_confidenceThreshold = Some 0.45,
                                   opt_maxWarningsPerFile = Some 1\<rparr>))
         ''a == b != c'' ''f.js'' getHeuristicPatterns)) = 1 \<and>
   totalPassingMatches
         (config (MLAnalyzer_new \<lparr>opt_enabled = None, opt_confidenceThreshold = Some 0.45,
                                   opt_maxWarningsPerFile = Some 1\<rparr>))
         getHeuristicPatterns ''a == b != c'' = 2"
proof -
  let ?opts = "\<lparr>opt_enabled = None, opt_confidenceThreshold = Some 0.45,
                opt_maxWarningsPerFile = Some 1\<rparr>"
  let ?A = "MLAnalyzer_new ?opts"
  let ?m = "\<lparr>m_type = ''heuristic'', m_version = ''1.0.0'', m_patterns = getHeuristicPatterns\<rparr>"
  have cfg: "0 \<le> maxWarningsPerFile (config ?A)" "enabled (config ?A)"
            "nat (maxWarningsPerFile (config ?A)) = 1"
    by (simp_all add: MLAnalyzer_new_def)
  have mo: "model ?A = Some ?m" "m_type ?m = ''heuristic''" "m_patterns ?m = getHeuristicPatterns"
    by (simp_all add: MLAnalyzer_new_def initializeModel_def)
  have total: "totalPassingMatches (config ?A) getHeuristicPatterns ''a == b != c'' = 2"
    by code_simp
  note claim = MLAnalyzer_analyze_truncation
                 [where this = ?A and opts = ?opts and m = ?m and ast = "()"
                    and content = "''a == b != c''" and filePath = "''f.js''"
                    and out = "take 1 (scanOrder (config ?A) ''a == b != c'' ''f.js''
                                         getHeuristicPatterns)"]
  from claim cfg have run: "MLAnalyzer_analyze ?A () ''a == b != c'' ''f.js'' =
      Returns (take 1 (scanOrder (config ?A) ''a == b != c'' ''f.js'' getHeuristicPatterns))"
    by simp
  with claim cfg mo total
  have "length (take 1 (scanOrder (config ?A) ''a == b != c'' ''f.js'' getHeuristicPatterns)) = 1"
    by simp
  with run total show ?thesis by simp
qed

subsection \<open>What a finding borrows from its category\<close>










section \<open>The rule engine: proofs\<close>

lemmas applyRule_loop_unfold = applyRule_loop.simps

declare applyRule_loop.simps [simp del]


lemma applyRule_loop_invariant:
  assumes "applyRule_loop p r ruleName content filePath lines lastIndex acc = Returns vs"
      and "\<forall>f \<in> set acc. P f"
      and "\<And>matchStart match0 lineContent.
             array_get lines (fst (RuleEngine_getLineAndColumn content matchStart) - 1)
               = Some lineContent \<Longrightarrow>
             \<not> shouldSkipRule r lineContent (fst (RuleEngine_getLineAndColumn content matchStart)) \<Longrightarrow>
             P (violation r ruleName filePath
                  (fst (RuleEngine_getLineAndColumn content matchStart))
                  (snd (RuleEngine_getLineAndColumn content matchStart)) match0)"
  shows "\<forall>f \<in> set vs. P f"
  using assms(1,2)
proof (induction "length content - lastIndex" arbitrary: lastIndex acc rule: less_induct)
  case less
  show ?case
  proof (cases "p content lastIndex")
    case None
    with less.prems show ?thesis
      by (simp add: applyRule_loop_unfold [of p r ruleName content filePath lines lastIndex acc])
  next
    case (Some res)
    obtain matchStart match0 where res: "res = (matchStart, match0)" by (cases res)
    obtain lineNo columnNo where
      lc: "RuleEngine_getLineAndColumn content matchStart = (lineNo, columnNo)"
      by (cases "RuleEngine_getLineAndColumn content matchStart")
    show ?thesis
    proof (cases "array_get lines (lineNo - 1)")
      case None
      with less.prems \<open>p content lastIndex = Some res\<close> res lc show ?thesis
        by (simp add: applyRule_loop_unfold [of p r ruleName content filePath lines lastIndex acc])
    next
      case (Some lineContent)
      let ?acc' = "if shouldSkipRule r lineContent lineNo then acc
                   else acc @ [violation r ruleName filePath lineNo columnNo match0]"
      have step: "lastIndex < matchStart + length match0 \<and>
                  matchStart + length match0 \<le> length content"
        and rec: "applyRule_loop p r ruleName content filePath lines
                    (matchStart + length match0) ?acc' = Returns vs"
        using less.prems(1) \<open>p content lastIndex = Some res\<close> res lc Some
        by (auto simp: applyRule_loop_unfold [of p r ruleName content filePath lines lastIndex acc]
                 Let_def split: if_splits)
      have "\<not> shouldSkipRule r lineContent lineNo \<Longrightarrow>
              P (violation r ruleName filePath lineNo columnNo match0)"
        using assms(3) [of matchStart lineContent match0] lc Some by simp
      with less.prems(2) have inv: "\<forall>f \<in> set ?acc'. P f" by auto
      have "length content - (matchStart + length match0) < length content - lastIndex"
        using step by linarith
      from less.hyps [OF this rec inv] show ?thesis .
    qed
  qed
qed

lemma applyRule_loop_same:
  assumes "\<And>lineContent lineNo. shouldSkipRule r' lineContent lineNo = shouldSkipRule r lineContent lineNo"
      and "\<And>lineNo columnNo match0.
             violation r' ruleName filePath lineNo columnNo match0 =
             violation r ruleName filePath lineNo columnNo match0"
  shows "applyRule_loop p r' ruleName content filePath lines lastIndex acc =
         applyRule_loop p r ruleName content filePath lines lastIndex acc"
proof (induction "length content - lastIndex" arbitrary: lastIndex acc rule: less_induct)
  case less
  show ?case
  proof (cases "p content lastIndex")
    case None
    then show ?thesis
      by (simp add: applyRule_loop_unfold [of p r' ruleName content filePath lines lastIndex acc]
            applyRule_loop_unfold [of p r ruleName content filePath lines lastIndex acc])
  next
    case (Some res)
    obtain matchStart match0 where res: "res = (matchStart, match0)" by (cases res)
    obtain lineNo columnNo where
      lc: "RuleEngine_getLineAndColumn content matchStart = (lineNo, columnNo)"
      by (cases "RuleEngine_getLineAndColumn content matchStart")
    show ?thesis
    proof (cases "lastIndex < matchStart + length match0 \<and>
                  matchStart + length match0 \<le> length content")
      case True
      then have "length content - (matchStart + length match0) < length content - lastIndex"
        by linarith
      from less.hyps [OF this]
      have IH: "applyRule_loop p r' ruleName content filePath lines (matchStart + length match0) acc' =
                applyRule_loop p r ruleName content filePath lines (matchStart + length match0) acc'"
        for acc' .
      show ?thesis
        by (simp add: applyRule_loop_unfold [of p r' ruleName content filePath lines lastIndex acc]
              applyRule_loop_unfold [of p r ruleName content filePath lines lastIndex acc]
              Some res lc True IH assms Let_def split: option.splits)
    next
      case False
      show ?thesis
        by (simp add: applyRule_loop_unfold [of p r' ruleName content filePath lines lastIndex acc]
              applyRule_loop_unfold [of p r ruleName content filePath lines lastIndex acc]
              Some res lc False assms Let_def split: option.splits)
    qed
  qed
qed

lemma applyRule_enabled_update:
  "applyRule (r\<lparr>r_enabled := v\<rparr>) ruleName content filePath = applyRule r ruleName content filePath"
proof -
  have "applyRule_loop p (r\<lparr>r_enabled := v\<rparr>) ruleName content filePath lines lastIndex acc =
        applyRule_loop p r ruleName content filePath lines lastIndex acc" for p lines lastIndex acc
    by (rule applyRule_loop_same) (simp_all add: shouldSkipRule_def violation_def)
  then show ?thesis
    by (simp add: applyRule_def split: option.splits pattern_value.splits)
qed

text \<open>What a finding of the rule engine is: made by a rule, for a match on a line that is not skipped.\<close>

lemma applyRule_findings:
  assumes "applyRule r ruleName content filePath = Returns vs" and "f \<in> set vs"
  shows "rule f = ruleName \<and> type f = ''rule'' \<and> severity f = r_severity r \<and>
         (\<exists>matchStart lineContent.
             (line f, column f) = RuleEngine_getLineAndColumn content matchStart \<and>
             array_get (split_newline content) (line f - 1) = Some lineContent \<and>
             \<not> shouldSkipRule r lineContent (line f))"
proof (cases "r_pattern r")
  case None
  with assms show ?thesis by (simp add: applyRule_def)
next
  case (Some pv)
  show ?thesis
  proof (cases pv)
    case OtherValue
    with Some assms show ?thesis by (simp add: applyRule_def)
  next
    case (RegExpValue p)
    with Some assms(1) have run:
      "applyRule_loop p r ruleName content filePath (split_newline content) 0 [] = Returns vs"
      by (simp add: applyRule_def)
    let ?P = "\<lambda>f. rule f = ruleName \<and> type f = ''rule'' \<and> severity f = r_severity r \<and>
         (\<exists>matchStart lineContent.
             (line f, column f) = RuleEngine_getLineAndColumn content matchStart \<and>
             array_get (split_newline content) (line f - 1) = Some lineContent \<and>
             \<not> shouldSkipRule r lineContent (line f))"
    have "\<forall>f \<in> set vs. ?P f"
    proof (rule applyRule_loop_invariant [OF run, where P = ?P])
      show "\<forall>f \<in> set []. ?P f" by simp
    next
      fix matchStart match0 lineContent
      assume a: "array_get (split_newline content)
                   (fst (RuleEngine_getLineAndColumn content matchStart) - 1) = Some lineContent"
        and b: "\<not> shouldSkipRule r lineContent (fst (RuleEngine_getLineAndColumn content matchStart))"
      have "(fst (RuleEngine_getLineAndColumn content matchStart),
             snd (RuleEngine_getLineAndColumn content matchStart))
              = RuleEngine_getLineAndColumn content matchStart" by simp
      with a b show "?P (violation r ruleName filePath
                  (fst (RuleEngine_getLineAndColumn content matchStart))
                  (snd (RuleEngine_getLineAndColumn content matchStart)) match0)"
        unfolding violation_def by (simp del: prod.collapse) blast
    qed
    with assms(2) show ?thesis by blast
  qed
qed

lemma forEnabledRules_findings:
  assumes "forEnabledRules rs content filePath names acc = Returns out" and "f \<in> set out"
  shows "f \<in> set acc \<or>
         (\<exists>r vs. rule f \<in> set names \<and> map_of rs (rule f) = Some r \<and>
                  applyRule r (rule f) content filePath = Returns vs \<and> f \<in> set vs)"
  using assms
proof (induction names arbitrary: acc)
  case Nil
  then show ?case by simp
next
  case (Cons name names)
  from Cons.prems(1) obtain r vs where
      r: "map_of rs name = Some r"
    and vs: "applyRule r name content filePath = Returns vs"
    and rest: "forEnabledRules rs content filePath names (acc @ vs) = Returns out"
    by (auto split: option.splits outcome.splits)
  from Cons.IH [OF rest Cons.prems(2)] show ?case
  proof
    assume "f \<in> set (acc @ vs)"
    then consider "f \<in> set acc" | "f \<in> set vs" by auto
    then show ?thesis
    proof cases
      case 1
      then show ?thesis by simp
    next
      case 2
      with applyRule_findings [OF vs 2] r vs show ?thesis by auto
    qed
  next
    assume "\<exists>r vs. rule f \<in> set names \<and> map_of rs (rule f) = Some r \<and>
                  applyRule r (rule f) content filePath = Returns vs \<and> f \<in> set vs"
    then show ?thesis by auto
  qed
qed

lemma getEnabledRules_member:
  "(name \<in> set (getEnabledRules rs)) =
     (\<exists>r. map_of rs name = Some r \<and> r_enabled r \<noteq> Some (JBool False))"
proof -
  have "map_of rs name = Some r \<Longrightarrow> name \<in> fst ` set rs" for r
    by (rule map_of_SomeD [THEN imageI [where f = fst], simplified])
  then show ?thesis
    by (auto simp: getEnabledRules_def split: option.splits)
qed

lemma RuleEngine_analyze_findings:
  assumes "RuleEngine_analyze this ast content filePath = Returns out" and "f \<in> set out"
  shows "\<exists>r vs. rule f \<in> set (enabledRules this) \<and> map_of (rules this) (rule f) = Some r \<and>
                applyRule r (rule f) content filePath = Returns vs \<and> f \<in> set vs"
  using forEnabledRules_findings [of "rules this" content filePath "enabledRules this" "[]" out f]
        assms
  by (simp add: RuleEngine_analyze_def)

subsection \<open>The enabled flag\<close>

lemma getEnabledRules_update_enabled:
  assumes "map_of rs name = Some r" and "r_enabled r \<noteq> Some (JBool False)"
      and "v \<noteq> JBool False"
  shows "getEnabledRules (AList.update name (r\<lparr>r_enabled := Some v\<rparr>) rs) = getEnabledRules rs"
proof -
  have "name \<in> fst ` set rs"
    using assms(1) by (rule map_of_SomeD [THEN imageI [where f = fst], simplified])
  then have keys: "map fst (AList.update name (r\<lparr>r_enabled := Some v\<rparr>) rs) = map fst rs"
    by (simp add: update_keys)
  show ?thesis
    unfolding getEnabledRules_def keys
    by (rule filter_cong) (use assms in \<open>auto simp: update_conv' split: option.splits\<close>)
qed

lemma forEnabledRules_update_enabled:
  assumes "map_of rs name = Some r"
  shows "forEnabledRules (AList.update name (r\<lparr>r_enabled := v\<rparr>) rs) content filePath names acc =
         forEnabledRules rs content filePath names acc"
proof (induction names arbitrary: acc)
  case Nil
  show ?case by simp
next
  case (Cons n names)
  show ?case
  proof (cases "n = name")
    case True
    with assms Cons show ?thesis
      by (simp add: update_conv' applyRule_enabled_update split: outcome.splits)
  next
    case False
    with Cons show ?thesis
      by (simp add: update_conv' split: option.splits outcome.splits)
  qed
qed

lemma RuleEngine_invariant:
  "enabledRules (RuleEngine_new customRules) = getEnabledRules (rules (RuleEngine_new customRules))"
  "enabledRules (addRule this name ruleConfig) = getEnabledRules (rules (addRule this name ruleConfig))"
  "enabledRules this = getEnabledRules (rules this) \<Longrightarrow>
     enabledRules (setRuleEnabled this name v) = getEnabledRules (rules (setRuleEnabled this name v))"
  by (simp_all add: RuleEngine_new_def addRule_def setRuleEnabled_def Let_def split: option.splits)

lemma disabled_rule_no_findings:
  assumes inv: "enabledRules this = getEnabledRules (rules this)"
      and r: "map_of (rules this) name = Some r" and off: "r_enabled r = Some (JBool False)"
      and run: "RuleEngine_analyze this ast content filePath = Returns out"
  shows "\<forall>f \<in> set out. rule f \<noteq> name"
proof
  fix f assume "f \<in> set out"
  from RuleEngine_analyze_findings [OF run this] have "rule f \<in> set (enabledRules this)" by blast
  then obtain r' where "map_of (rules this) (rule f) = Some r'" "r_enabled r' \<noteq> Some (JBool False)"
    unfolding inv getEnabledRules_member by blast
  with r off show "rule f \<noteq> name" by auto
qed

text \<open>
  Claim C8.  A rule whose \<open>enabled\<close> attribute is \<open>false\<close> contributes no finding
  to \<open>RuleEngine.analyze\<close>, whatever the text: this holds for every engine whose
  list of enabled rules is the one computed from its rules, as it is after the
  constructor, \<open>setRuleEnabled\<close> and \<open>addRule\<close>; and after disabling a rule
  with \<open>setRuleEnabled\<close> it is not among the enabled rules.  When the heuristic
  analyzer's \<open>enabled\<close> setting is false, \<open>MLAnalyzer.analyze\<close> returns the empty
  sequence for every input.
\<close>

theorem disabled_never_contributes:
  "(enabledRules this = getEnabledRules (rules this) \<and>
    map_of (rules this) name = Some r \<and> r_enabled r = Some (JBool False) \<and>
    RuleEngine_analyze this ast content filePath = Returns out
      \<longrightarrow> (\<forall>f \<in> set out. rule f \<noteq> name)) \<and>
   (map_of (rules (RuleEngine_new customRules)) name = Some r \<and>
    r_enabled r = Some (JBool False) \<and>
    RuleEngine_analyze (RuleEngine_new customRules) ast content filePath = Returns out
      \<longrightarrow> (\<forall>f \<in> set out. rule f \<noteq> name)) \<and>
   (enabledRules this = getEnabledRules (rules this) \<longrightarrow>
      name \<notin> set (enabledRules (setRuleEnabled this name (JBool False)))) \<and>
   (\<not> enabled (config analyzer) \<longrightarrow>
      MLAnalyzer_analyze analyzer ast content filePath = Returns [])"
proof (intro conjI impI)
  assume "enabledRules this = getEnabledRules (rules this) \<and>
    map_of (rules this) name = Some r \<and> r_enabled r = Some (JBool False) \<and>
    RuleEngine_analyze this ast content filePath = Returns out"
  then show "\<forall>f \<in> set out. rule f \<noteq> name"
    using disabled_rule_no_findings [of this name r ast content filePath out] by blast
next
  assume "map_of (rules (RuleEngine_new customRules)) name = Some r \<and>
    r_enabled r = Some (JBool False) \<and>
    RuleEngine_analyze (RuleEngine_new customRules) ast content filePath = Returns out"
  then show "\<forall>f \<in> set out. rule f \<noteq> name"
    using disabled_rule_no_findings [of "RuleEngine_new customRules" name r ast content filePath out]
          RuleEngine_invariant(1) [of customRules]
    by blast
next
  assume inv: "enabledRules this = getEnabledRules (rules this)"
  show "name \<notin> set (enabledRules (setRuleEnabled this name (JBool False)))"
  proof (cases "map_of (rules this) name")
    case None
    then show ?thesis
      by (simp add: setRuleEnabled_def inv getEnabledRules_member)
  next
    case (Some r0)
    then show ?thesis
      by (simp add: setRuleEnabled_def Let_def getEnabledRules_member update_conv')
  qed
next
  assume "\<not> enabled (config analyzer)"
  then show "MLAnalyzer_analyze analyzer ast content filePath = Returns []"
    by (rule MLAnalyzer_analyze_disabled)
qed

text \<open>
  Claim C10.  Only the value \<open>false\<close> of \<open>enabled\<close> keeps a rule out of the active
  set.  A rule of the rule set whose \<open>enabled\<close> attribute is absent or has any
  other value is among the enabled rules, and \<open>analyze\<close> returns the same as
  after setting its \<open>enabled\<close> to \<open>true\<close>; a rule added with \<open>addRule\<close> is enabled
  unless its configuration says \<open>enabled: false\<close>.
\<close>

theorem only_false_disables:
  "((name \<in> set (getEnabledRules rs)) =
      (\<exists>r. map_of rs name = Some r \<and> r_enabled r \<noteq> Some (JBool False))) \<and>
   (enabledRules this = getEnabledRules (rules this) \<and>
    map_of (rules this) name = Some r \<and> r_enabled r \<noteq> Some (JBool False) \<longrightarrow>
      name \<in> set (enabledRules this) \<and>
      RuleEngine_analyze (setRuleEnabled this name (JBool True)) ast content filePath =
        RuleEngine_analyze this ast content filePath) \<and>
   (r_enabled ruleConfig \<noteq> Some (JBool False) \<longrightarrow>
      name \<in> set (enabledRules (addRule this name ruleConfig)))"
proof (intro conjI impI)
  show "(name \<in> set (getEnabledRules rs)) =
      (\<exists>r. map_of rs name = Some r \<and> r_enabled r \<noteq> Some (JBool False))"
    by (rule getEnabledRules_member)
next
  assume a: "enabledRules this = getEnabledRules (rules this) \<and>
    map_of (rules this) name = Some r \<and> r_enabled r \<noteq> Some (JBool False)"
  then show "name \<in> set (enabledRules this)"
    by (simp add: getEnabledRules_member)
next
  assume a: "enabledRules this = getEnabledRules (rules this) \<and>
    map_of (rules this) name = Some r \<and> r_enabled r \<noteq> Some (JBool False)"
  then have inv: "enabledRules this = getEnabledRules (rules this)"
    and r: "map_of (rules this) name = Some r" and on: "r_enabled r \<noteq> Some (JBool False)"
    by simp_all
  have "getEnabledRules (AList.update name (r\<lparr>r_enabled := Some (JBool True)\<rparr>) (rules this))
          = getEnabledRules (rules this)"
    using getEnabledRules_update_enabled [OF r on, of "JBool True"] by simp
  with r inv show "RuleEngine_analyze (setRuleEnabled this name (JBool True)) ast content filePath =
        RuleEngine_analyze this ast content filePath"
    by (simp add: RuleEngine_analyze_def setRuleEnabled_def Let_def
          forEnabledRules_update_enabled [OF r])
next
  assume "r_enabled ruleConfig \<noteq> Some (JBool False)"
  then show "name \<in> set (enabledRules (addRule this name ruleConfig))"
    by (auto simp: addRule_def Let_def getEnabledRules_member update_conv' split: option.splits)
qed

theorem disabled_never_contributes_witness:
  "map_option r_enabled (map_of (rules (RuleEngine_new [])) ''no-unused-variables'')
     = Some (Some (JBool False)) \<and>
   regex_exec rx_no_unused_variables ''const x = 1;'' 0 = Some (0, ''const x = 1;'') \<and>
   RuleEngine_analyze (RuleEngine_new []) () ''const x = 1;'' ''f.js'' = Returns [] \<and>
   ''no-console-log'' \<notin> set (enabledRules
      (setRuleEnabled (RuleEngine_new []) ''no-console-log'' (JBool False))) \<and>
   \<not> enabled (config (MLAnalyzer_new \<lparr>opt_enabled = Some False, opt_confidenceThreshold = None,
                                         opt_maxWarningsPerFile = None\<rparr>)) \<and>
   MLAnalyzer_analyze
     (MLAnalyzer_new \<lparr>opt_enabled = Some False, opt_confidenceThreshold = None,
                       opt_maxWarningsPerFile = None\<rparr>)
     () ''const x = 1;'' ''f.js'' = Returns []"
proof -
  let ?E = "RuleEngine_new []"
  let ?A = "MLAnalyzer_new \<lparr>opt_enabled = Some False, opt_confidenceThreshold = None,
                             opt_maxWarningsPerFile = None\<rparr>"
  obtain r where r: "map_of (rules ?E) ''no-unused-variables'' = Some r"
    and off: "r_enabled r = Some (JBool False)"
    by (simp add: RuleEngine_new_def Let_def initializeRules_def objectSpread_def
          defaultRules_def defaultRule_def)
  have run: "RuleEngine_analyze ?E () ''const x = 1;'' ''f.js'' = Returns []"
    by code_simp
  have would: "regex_exec rx_no_unused_variables ''const x = 1;'' 0 = Some (0, ''const x = 1;'')"
    by code_simp
  have inv: "enabledRules ?E = getEnabledRules (rules ?E)"
    by (rule RuleEngine_invariant(1))
  have dis: "\<not> enabled (config ?A)"
    by (simp add: MLAnalyzer_new_def)
  have ml: "MLAnalyzer_analyze ?A () ''const x = 1;'' ''f.js'' = Returns []"
    using dis
    by (rule disabled_never_contributes
               [THEN conjunct2, THEN conjunct2, THEN conjunct2, rule_format])
  have gone: "''no-console-log'' \<notin> set (enabledRules
      (setRuleEnabled ?E ''no-console-log'' (JBool False)))"
    using inv
    by (rule disabled_never_contributes
               [THEN conjunct2, THEN conjunct2, THEN conjunct1, rule_format])
  have "f \<in> set ([] :: finding list) \<Longrightarrow> rule f \<noteq> ''no-unused-variables''" for f
    using conjI [OF inv conjI [OF r conjI [OF off run]]]
    by (rule disabled_never_contributes [THEN conjunct1, rule_format])
  from r off have "map_option r_enabled (map_of (rules ?E) ''no-unused-variables'')
     = Some (Some (JBool False))" by simp
  with would run gone dis ml show ?thesis by (intro conjI)
qed

theorem only_false_disables_witness:
  "''no-todo'' \<in> set (enabledRules
     (RuleEngine_new [(''no-todo'',
        \<lparr>r_name = None, r_enabled = None, r_severity = Some ''info'',
         r_description = Some ''TODO left'',
         r_pattern = Some (RegExpValue (regex_exec (Lit ''TODO''))), r_exclude = None\<rparr>)])) \<and>
   RuleEngine_analyze
     (setRuleEnabled
        (RuleEngine_new [(''no-todo'',
           \<lparr>r_name = None, r_enabled = None, r_severity = Some ''info'',
            r_description = Some ''TODO left'',
            r_pattern = Some (RegExpValue (regex_exec (Lit ''TODO''))), r_exclude = None\<rparr>)])
        ''no-todo'' (JBool True))
     () ''// TODO'' ''f.js'' =
     Returns [\<lparr>type = ''rule'', severity = Some ''info'', file' = ''f.js'', line = 1, column = 4,
       message = Some ''TODO left'', rule = ''no-todo'', code = Some ''TODO'',
       suggestion = Some ''Review and fix according to rule description'',
       confidence = None, category = None\<rparr>] \<and>
   ''extra'' \<in> set (enabledRules
     (addRule (RuleEngine_new []) ''extra''
        \<lparr>r_name = None, r_enabled = Some JNull, r_severity = None, r_description = None,
         r_pattern = None, r_exclude = None\<rparr>))"
proof -
  let ?R = "\<lparr>r_name = None, r_enabled = None, r_severity = Some ''info'',
         r_description = Some ''TODO left'',
         r_pattern = Some (RegExpValue (regex_exec (Lit ''TODO''))), r_exclude = None\<rparr>"
  let ?E = "RuleEngine_new [(''no-todo'', ?R)]"
  let ?C = "\<lparr>r_name = None, r_enabled = Some JNull, r_severity = None, r_description = None,
         r_pattern = None, r_exclude = None\<rparr>"
  let ?F = "\<lparr>type = ''rule'', severity = Some ''info'', file' = ''f.js'', line = 1, column = 4,
       message = Some ''TODO left'', rule = ''no-todo'', code = Some ''TODO'',
       suggestion = Some ''Review and fix according to rule description'',
       confidence = None, category = None\<rparr>"
  have inv: "enabledRules ?E = getEnabledRules (rules ?E)"
    by (rule RuleEngine_invariant(1))
  have r: "map_of (rules ?E) ''no-todo'' = Some ?R"
    by (simp add: RuleEngine_new_def Let_def initializeRules_def objectSpread_def
          defaultRules_def defaultRule_def)
  have on: "r_enabled ?R \<noteq> Some (JBool False)" "r_enabled ?C \<noteq> Some (JBool False)"
    by simp_all
  have run: "RuleEngine_analyze ?E () ''// TODO'' ''f.js'' = Returns [?F]"
    by code_simp
  note hyp = conjI [OF inv conjI [OF r on(1)]]
  have active: "''no-todo'' \<in> set (enabledRules ?E)"
    using hyp
    by (rule only_false_disables [THEN conjunct2, THEN conjunct1, rule_format, THEN conjunct1])
  have same: "RuleEngine_analyze (setRuleEnabled ?E ''no-todo'' (JBool True)) () ''// TODO'' ''f.js'' =
               RuleEngine_analyze ?E () ''// TODO'' ''f.js''"
    using hyp
    by (rule only_false_disables [THEN conjunct2, THEN conjunct1, rule_format, THEN conjunct2])
  have added: "''extra'' \<in> set (enabledRules (addRule (RuleEngine_new []) ''extra'' ?C))"
    using on(2)
    by (rule only_false_disables [THEN conjunct2, THEN conjunct2, rule_format])
  from same run have "RuleEngine_analyze (setRuleEnabled ?E ''no-todo'' (JBool True)) ()
                        ''// TODO'' ''f.js'' = Returns [?F]"
    by (rule trans)
  with active added show ?thesis by (intro conjI)
qed

subsection \<open>The disable marker\<close>





end
